theory Spec2Isabelle
  imports Complex_Main "HOL-Library.Word"
begin

section \<open>Strings\<close>

text \<open>
  \<open>QString\<close> and \<open>std::string\<close> values are modelled as \<open>string\<close>, restricted to ASCII
  text, where \<open>fromStdString\<close>/\<open>toStdString\<close> are the identity and
  \<open>toUtf8().size()\<close> is the length. The library functions the program calls on them are
  written out below with the names they have in the source.
\<close>

definition isSpace :: "char \<Rightarrow> bool" where
  "isSpace c = (c = CHR 0x09 \<or> c = CHR 0x0A \<or> c = CHR 0x0B \<or> c = CHR 0x0C
                \<or> c = CHR 0x0D \<or> c = CHR 0x20)"

definition trimmed :: "string \<Rightarrow> string" where
  "trimmed s = rev (dropWhile isSpace (rev (dropWhile isSpace s)))"

text \<open>\<open>QString::split(sep)\<close> keeps empty parts, so it always returns at least one part.\<close>

fun split_at :: "char \<Rightarrow> string \<Rightarrow> string list" where
  "split_at sep [] = [[]]"
| "split_at sep (c # cs) =
     (if c = sep then [] # split_at sep cs
      else (case split_at sep cs of
              [] \<Rightarrow> [[c]]
            | p # ps \<Rightarrow> (c # p) # ps))"

fun join :: "string \<Rightarrow> string list \<Rightarrow> string" where
  "join sep [] = []"
| "join sep [x] = x"
| "join sep (x # y # ys) = x @ sep @ join sep (y # ys)"

definition digit_char :: "nat \<Rightarrow> char" where
  "digit_char d = ''0123456789'' ! d"

text \<open>\<open>QString::arg(int)\<close> for a count, which is never negative: its decimal digits.\<close>

fun arg_number :: "nat \<Rightarrow> string" where
  "arg_number n =
     (if n < 10 then [digit_char n] else arg_number (n div 10) @ [digit_char (n mod 10)])"

declare arg_number.simps [simp del]

section \<open>The table and the loader\<close>

text \<open>\<open>struct CsvData\<close> of csvdata.h.\<close>

record CsvData =
  headers :: "string list"
  rows :: "string list list"

text \<open>The three signals of \<open>class CsvLoader\<close> (csvloader.h).\<close>

datatype signal =
    progressUpdated int string
  | loadingFinished CsvData
  | errorOccurred string

text \<open>
  What \<open>CsvLoader::run\<close> sees of the file: whether it exists, whether \<open>open\<close> succeeds
  (and \<open>errorString()\<close> if not), the size \<open>file.size()\<close> reports, and the lines that
  \<open>QTextStream::readLine\<close> returns one after the other until \<open>atEnd()\<close> holds.
\<close>

record QFile =
  filePath :: string
  file_exists :: bool
  file_opens :: bool
  file_errorString :: string
  file_size :: int
  file_lines :: "string list"

definition MAX_ROWS_TO_LOAD :: nat where
  "MAX_ROWS_TO_LOAD = 50000"

text \<open>\<open>static_cast<int>\<close> of a \<open>long long\<close>: the low 32 bits, read as a signed number.\<close>

definition static_cast_int :: "int \<Rightarrow> int" where
  "static_cast_int v = sint (word_of_int v :: 32 word)"

text \<open>Splitting a line at the commas and trimming every field (the two \<open>for\<close> loops
  over \<open>headerFields\<close> and \<open>stringFields\<close>).\<close>

definition split_fields :: "string \<Rightarrow> string list" where
  "split_fields line = map trimmed (split_at CHR '','' line)"

text \<open>
  The local variables of \<open>run\<close>, the signals emitted so far, and \<open>polls\<close>, the number of
  times the \<open>volatile\<close> flag \<open>isCancelled\<close> has been read. The flag is written by another
  thread, so the loader takes it as a function from the index of the read to the value
  read. \<open>bytesRead\<close> is a \<open>long long\<close> that stays far below $2^{63}$ and is an \<open>int\<close>
  here; \<open>rowsLoaded\<close> counts up from 0 to at most \<open>MAX_ROWS_TO_LOAD\<close> and is a \<open>nat\<close>.
\<close>

record loader =
  csvData :: CsvData
  bytesRead :: int
  rowsLoaded :: nat
  polls :: nat
  emitted :: "signal list"

definition progress_percentage :: "int \<Rightarrow> int \<Rightarrow> int" where
  "progress_percentage fileSize bytes =
     (let percentage = (if fileSize > 0 then static_cast_int ((bytes * 100) div fileSize) else 0)
      in if percentage > 100 then 100 else percentage)"

text \<open>One pass of the body of the \<open>while\<close> loop, after the poll of the flag.\<close>

definition read_row :: "int \<Rightarrow> string \<Rightarrow> loader \<Rightarrow> loader" where
  "read_row fileSize line st =
     (let bytes = bytesRead st + (int (length line) + 1);
          data = csvData st;
          n = Suc (rowsLoaded st)
      in st\<lparr>csvData := data\<lparr>rows := rows data @ [split_fields line]\<rparr>,
            bytesRead := bytes,
            rowsLoaded := n,
            polls := Suc (polls st),
            emitted := emitted st @
              (if n mod 1000 = 0
               then [progressUpdated (progress_percentage fileSize bytes)
                       (arg_number n @ '' rows loaded...'')]
               else [])\<rparr>)"

text \<open>
  The loop \<open>while (!in.atEnd() && rowsLoaded < MAX_ROWS_TO_LOAD)\<close> over the lines still
  unread; it leaves by its condition or by the \<open>break\<close> after a poll that read \<open>true\<close>.
\<close>

fun read_rows :: "(nat \<Rightarrow> bool) \<Rightarrow> int \<Rightarrow> string list \<Rightarrow> loader \<Rightarrow> loader" where
  "read_rows isCancelled fileSize [] st = st"
| "read_rows isCancelled fileSize (line # rest) st =
     (if \<not> rowsLoaded st < MAX_ROWS_TO_LOAD then st
      else if isCancelled (polls st) then st\<lparr>polls := Suc (polls st)\<rparr>
      else read_rows isCancelled fileSize rest (read_row fileSize line st))"

definition after_header :: "string \<Rightarrow> loader" where
  "after_header headerLine =
     \<lparr>csvData = \<lparr>headers = split_fields headerLine, rows = []\<rparr>,
      bytesRead = int (length headerLine) + 1,
      rowsLoaded = 0,
      polls = 0,
      emitted = [progressUpdated 0 ''Header loaded.'']\<rparr>"

text \<open>The end of \<open>run\<close>, after \<open>file.close()\<close>: the last read of the flag and the
  terminal signal.\<close>

definition finish :: "(nat \<Rightarrow> bool) \<Rightarrow> loader \<Rightarrow> signal list" where
  "finish isCancelled st =
     (if isCancelled (polls st)
      then emitted st @ [errorOccurred ''Loading cancelled by user during row processing.'']
      else if rowsLoaded st = 0 \<and> headers (csvData st) = []
      then emitted st @ [errorOccurred ''No data loaded from CSV.'']
      else if rowsLoaded st = 0 \<and> headers (csvData st) \<noteq> []
      then emitted st @ [loadingFinished (csvData st)]
      else emitted st @
             [progressUpdated 100 (''Finished loading '' @ arg_number (rowsLoaded st) @ '' rows.''),
              loadingFinished (csvData st)])"

text \<open>\<open>CsvLoader::run\<close>: the signals it emits, in order.\<close>

definition run :: "(nat \<Rightarrow> bool) \<Rightarrow> QFile \<Rightarrow> signal list" where
  "run isCancelled file =
     (if \<not> file_exists file
      then [errorOccurred (''File not found: '' @ filePath file)]
      else if \<not> file_opens file
      then [errorOccurred (''Failed to open file: '' @ filePath file @ ''. Error: ''
                            @ file_errorString file)]
      else (case file_lines file of
              [] \<Rightarrow> [errorOccurred ''File is empty or header could not be read.'']
            | headerLine # rest \<Rightarrow>
                (let st = after_header headerLine in
                 if isCancelled (polls st)
                 then emitted st @ [errorOccurred ''Loading cancelled by user.'']
                 else finish isCancelled
                        (read_rows isCancelled (file_size file) rest
                           (st\<lparr>polls := Suc (polls st)\<rparr>)))))"

text \<open>
  The local variables of \<open>run\<close> at the moment the \<open>while\<close> loop is left, for a file of
  the given size whose first line is the header and whose other lines are the data, when
  the poll before the loop read \<open>false\<close>: this is the state \<open>run\<close> above hands to
  \<open>finish\<close>.
\<close>

definition rows_loop :: "(nat \<Rightarrow> bool) \<Rightarrow> int \<Rightarrow> string \<Rightarrow> string list \<Rightarrow> loader" where
  "rows_loop isCancelled fileSize headerLine dataLines =
     read_rows isCancelled fileSize dataLines ((after_header headerLine)\<lparr>polls := Suc 0\<rparr>)"

text \<open>The terminal signals are the two that end a load; progress is not one.\<close>

fun is_terminal :: "signal \<Rightarrow> bool" where
  "is_terminal (progressUpdated v m) = False"
| "is_terminal (loadingFinished d) = True"
| "is_terminal (errorOccurred m) = True"

fun is_progress :: "signal \<Rightarrow> bool" where
  "is_progress (progressUpdated v m) = True"
| "is_progress (loadingFinished d) = False"
| "is_progress (errorOccurred m) = False"

text \<open>\<open>cancel()\<close> is the only writer of the flag and it writes \<open>true\<close>: once a read has
  returned \<open>true\<close>, every later read does.\<close>

definition latched :: "(nat \<Rightarrow> bool) \<Rightarrow> bool" where
  "latched isCancelled = (\<forall>i j. i \<le> j \<longrightarrow> isCancelled i \<longrightarrow> isCancelled j)"

text \<open>A readable file with the given lines, for the examples.\<close>

definition example_file :: "string list \<Rightarrow> QFile" where
  "example_file ls =
     \<lparr>filePath = ''data.csv'', file_exists = True, file_opens = True,
      file_errorString = [], file_size = 20, file_lines = ls\<rparr>"

section \<open>The row filter\<close>

text \<open>
  The values of C++ \<open>double\<close> with the comparisons of IEEE 754: every comparison with a NaN
  is false, and the two zeros are the one \<open>Finite 0\<close>.
\<close>

datatype double = Finite real | PosInf | NegInf | NaN

fun double_less :: "double \<Rightarrow> double \<Rightarrow> bool" where
  "double_less NaN b = False"
| "double_less a NaN = False"
| "double_less (Finite x) (Finite y) = (x < y)"
| "double_less (Finite x) PosInf = True"
| "double_less (Finite x) NegInf = False"
| "double_less PosInf b = False"
| "double_less NegInf NegInf = False"
| "double_less NegInf b = True"

definition double_eq :: "double \<Rightarrow> double \<Rightarrow> bool" where
  "double_eq a b = (a \<noteq> NaN \<and> a = b)"

definition double_le :: "double \<Rightarrow> double \<Rightarrow> bool" where
  "double_le a b = (double_less a b \<or> double_eq a b)"

text \<open>\<open>QString::startsWith\<close>, \<open>QString::mid\<close> with one argument, and
  \<open>QString::contains\<close> with \<open>Qt::CaseInsensitive\<close> (on ASCII text).\<close>

definition startsWith :: "string \<Rightarrow> string \<Rightarrow> bool" where
  "startsWith s p = (take (length p) s = p)"

definition mid :: "string \<Rightarrow> nat \<Rightarrow> string" where
  "mid s n = drop n s"

definition toLower :: "char \<Rightarrow> char" where
  "toLower c =
     (case map_of (zip ''ABCDEFGHIJKLMNOPQRSTUVWXYZ'' ''abcdefghijklmnopqrstuvwxyz'') c of
        None \<Rightarrow> c
      | Some l \<Rightarrow> l)"

fun contains :: "string \<Rightarrow> string \<Rightarrow> bool" where
  "contains [] p = (p = [])"
| "contains (c # cs) p = (startsWith (c # cs) p \<or> contains cs p)"

definition contains_ci :: "string \<Rightarrow> string \<Rightarrow> bool" where
  "contains_ci s p = contains (map toLower s) (map toLower p)"

text \<open>
  The test of one cell against one non-empty filter text, the body of the inner loop of
  \<open>MainWindow::applyTableFilters\<close>. \<open>QString::toDouble\<close> is a parameter: \<open>toDouble s\<close> is
  \<open>Some v\<close> when the conversion sets \<open>ok\<close> and returns \<open>v\<close>, and \<open>None\<close> when it clears
  \<open>ok\<close>. The local \<open>numeric\<close> is \<open>Some currentFilterMatches\<close> where the source sets
  \<open>isNumericComparison\<close>, and \<open>None\<close> where it leaves it \<open>false\<close> and falls back to the
  substring test.
\<close>

definition currentFilterMatches :: "(string \<Rightarrow> double option) \<Rightarrow> string \<Rightarrow> string \<Rightarrow> bool" where
  "currentFilterMatches toDouble cellValue filterText =
     (let numeric =
        (if startsWith filterText ''>'' \<or> startsWith filterText ''<'' \<or> startsWith filterText ''=''
         then
           (let numPart = mid filterText
                  (if startsWith filterText ''=='' \<or> startsWith filterText ''>=''
                      \<or> startsWith filterText ''<='' then 2 else 1)
            in case (toDouble cellValue, toDouble numPart) of
                 (Some cellNum, Some filterNum) \<Rightarrow>
                   Some (if startsWith filterText ''>='' then double_le filterNum cellNum
                         else if startsWith filterText ''<='' then double_le cellNum filterNum
                         else if startsWith filterText ''>'' then double_less filterNum cellNum
                         else if startsWith filterText ''<'' then double_less cellNum filterNum
                         else if startsWith filterText ''=='' then double_eq cellNum filterNum
                         else if startsWith filterText ''='' then double_eq cellNum filterNum
                         else False)
               | _ \<Rightarrow> None)
         else if CHR '':'' \<in> set filterText
         then
           (let rangeParts = split_at CHR '':'' filterText
            in if length rangeParts = 2
               then (case (toDouble cellValue, toDouble (rangeParts ! 0), toDouble (rangeParts ! 1)) of
                       (Some cellNum, Some minVal, Some maxVal) \<Rightarrow>
                         Some (double_le minVal cellNum \<and> double_le cellNum maxVal)
                     | _ \<Rightarrow> None)
               else None)
         else None)
      in case numeric of
           Some matches \<Rightarrow> matches
         | None \<Rightarrow> contains_ci cellValue filterText)"

text \<open>
  \<open>headerFilters\<close> is the list of the filter boxes, one per column: \<open>Some text\<close> for a
  box and its text, \<open>None\<close> for a null pointer. \<open>activeFilters\<close> holds the trimmed texts,
  and the empty string for a null pointer.
\<close>

definition activeFilters :: "string option list \<Rightarrow> string list" where
  "activeFilters headerFilters =
     map (\<lambda>w. case w of None \<Rightarrow> [] | Some text \<Rightarrow> trimmed text) headerFilters"

text \<open>
  The loop \<open>for (j = 0; j < headerFilters.size() && j < row.size(); ++j)\<close>, on the filters
  and the cells from index \<open>j\<close> on; it leaves with \<open>false\<close> at the first filter that fails.
\<close>

fun filters_loop :: "(string \<Rightarrow> double option) \<Rightarrow> string list \<Rightarrow> string list \<Rightarrow> bool" where
  "filters_loop toDouble [] cells = True"
| "filters_loop toDouble (f # fs) [] = True"
| "filters_loop toDouble (f # fs) (c # cs) =
     (if f \<noteq> []
      then (if \<not> currentFilterMatches toDouble c f then False
            else filters_loop toDouble fs cs)
      else filters_loop toDouble fs cs)"

text \<open>The value of \<open>matchesAllFilters\<close> for one row; a row shorter than the list of
  filter boxes never matches.\<close>

definition matchesAllFilters :: "(string \<Rightarrow> double option) \<Rightarrow> string list \<Rightarrow> string list \<Rightarrow> bool" where
  "matchesAllFilters toDouble active row =
     (if length row < length active then False else filters_loop toDouble active row)"

text \<open>\<open>MainWindow::applyTableFilters\<close>: the new value of \<open>currentlyDisplayedData\<close>.\<close>

definition applyTableFilters ::
  "(string \<Rightarrow> double option) \<Rightarrow> CsvData \<Rightarrow> string option list \<Rightarrow> CsvData" where
  "applyTableFilters toDouble currentCsvData headerFilters =
     (let active = activeFilters headerFilters;
          anyFilterActive = list_ex (\<lambda>f. f \<noteq> []) active
      in if \<not> anyFilterActive then currentCsvData
         else \<lparr>headers = headers currentCsvData,
               rows = filter (matchesAllFilters toDouble active) (rows currentCsvData)\<rparr>)"

text \<open>
  A number parser for the examples: \<open>QString::toDouble\<close> on plain decimal notation, an
  optional sign, digits, and an optional fraction after a point, with white space around
  it ignored. The examples apply it to such numbers and to texts that are no numbers in
  any notation.
\<close>

definition digit_value :: "char \<Rightarrow> nat option" where
  "digit_value c = map_of [(CHR ''0'', 0), (CHR ''1'', 1), (CHR ''2'', 2), (CHR ''3'', 3),
       (CHR ''4'', 4), (CHR ''5'', 5), (CHR ''6'', 6), (CHR ''7'', 7), (CHR ''8'', 8),
       (CHR ''9'', 9)] c"

fun digits_value :: "string \<Rightarrow> nat \<Rightarrow> nat option" where
  "digits_value [] acc = Some acc"
| "digits_value (c # cs) acc =
     (case digit_value c of None \<Rightarrow> None | Some d \<Rightarrow> digits_value cs (10 * acc + d))"

definition toDouble_decimal :: "string \<Rightarrow> double option" where
  "toDouble_decimal s =
     (let t = trimmed s;
          negative = startsWith t ''-'';
          u = (if startsWith t ''-'' \<or> startsWith t ''+'' then mid t 1 else t);
          whole = takeWhile (\<lambda>c. c \<noteq> CHR ''.'') u;
          fraction = drop 1 (dropWhile (\<lambda>c. c \<noteq> CHR ''.'') u)
      in if whole = [] \<and> fraction = [] then None
         else (case (digits_value whole 0, digits_value fraction 0) of
                 (Some w, Some f) \<Rightarrow>
                   Some (Finite ((if negative then - 1 else 1)
                                  * (real w + real f / 10 ^ length fraction)))
               | _ \<Rightarrow> None))"

text \<open>
  "The row satisfies every non-empty per-column filter", as the specification words it:
  for every column whose filter is not empty, the row has a cell in that column and the
  cell matches the filter. This predicate is written from those words, to be compared
  with \<open>matchesAllFilters\<close>, which is written from the source.
\<close>

definition satisfies_all :: "(string \<Rightarrow> double option) \<Rightarrow> string list \<Rightarrow> string list \<Rightarrow> bool" where
  "satisfies_all toDouble active row =
     list_all (\<lambda>j. active ! j = []
                   \<or> (j < length row \<and> currentFilterMatches toDouble (row ! j) (active ! j)))
       [0..<length active]"

section \<open>The emitter colours\<close>

text \<open>
  Colours are kept as the expressions the source builds them from: a \<open>Qt::GlobalColor\<close>,
  a colour named by a hexadecimal string, or \<open>darker(f)\<close> of a colour.
\<close>

datatype GlobalColor =
    Qt_black | Qt_red | Qt_darkGray | Qt_gray | Qt_green | Qt_blue | Qt_cyan | Qt_magenta
  | Qt_yellow | Qt_darkBlue | Qt_darkGreen | Qt_darkCyan | Qt_darkMagenta | Qt_darkYellow

datatype QColor = Global GlobalColor | Named string | Darker QColor nat

text \<open>
  The members of \<open>MainWindow\<close> that \<open>getEmitterColor\<close> reads and writes. \<open>nextColorIndex\<close>
  is an \<open>int\<close> that starts at 0, is set back to 0 when a file has been loaded, and is
  otherwise only incremented, once for each new key of \<open>emitterColorMap\<close>; it is a \<open>nat\<close>
  here.
\<close>

record registry =
  emitterColorMap :: "int \<rightharpoonup> QColor"
  vibrantColors :: "QColor list"
  nextColorIndex :: nat

definition default_colors :: "QColor list" where
  "default_colors =
     [Darker (Global Qt_green) 120, Global Qt_blue, Darker (Global Qt_cyan) 150,
      Global Qt_magenta, Darker (Global Qt_yellow) 150, Global Qt_darkBlue,
      Global Qt_darkGreen, Global Qt_darkCyan, Global Qt_darkMagenta, Global Qt_darkYellow,
      Global Qt_gray, Named ''#FF5733'', Named ''#33FFBD'', Named ''#A233FF'',
      Named ''#FFC300'']"

definition populateDefaultColors :: "registry \<Rightarrow> registry" where
  "populateDefaultColors st = st\<lparr>vibrantColors := vibrantColors st @ default_colors\<rparr>"

text \<open>\<open>MainWindow::getEmitterColor\<close>: the colour returned and the members afterwards.\<close>

definition getEmitterColor :: "int \<Rightarrow> registry \<Rightarrow> QColor \<times> registry" where
  "getEmitterColor emitterId st =
     (if emitterId = - 2 then (Global Qt_red, st)
      else if emitterId < 0 then (Global Qt_darkGray, st)
      else (case emitterColorMap st emitterId of
              Some c \<Rightarrow> (c, st)
            | None \<Rightarrow>
                (let st1 = (if vibrantColors st = [] then populateDefaultColors st else st)
                 in if vibrantColors st1 = [] then (Global Qt_black, st1)
                    else (let newColor = vibrantColors st1
                                           ! (nextColorIndex st1 mod length (vibrantColors st1))
                          in (newColor,
                              st1\<lparr>nextColorIndex := Suc (nextColorIndex st1),
                                  emitterColorMap := (emitterColorMap st1)(emitterId \<mapsto> newColor)\<rparr>)))))"

text \<open>A sequence of calls of \<open>getEmitterColor\<close>, one after the other: the colours returned,
  in order, and the members after the last call.\<close>

fun lookups :: "int list \<Rightarrow> registry \<Rightarrow> QColor list \<times> registry" where
  "lookups [] st = ([], st)"
| "lookups (emitterId # later) st =
     (let (c, st1) = getEmitterColor emitterId st;
          (cs, st2) = lookups later st1
      in (c # cs, st2))"

text \<open>The members after the constructor of \<open>MainWindow\<close>: an empty map, the index 0, and
  the palette that \<open>populateDefaultColors\<close> has filled.\<close>

definition constructed :: registry where
  "constructed =
     populateDefaultColors \<lparr>emitterColorMap = Map.empty, vibrantColors = [], nextColorIndex = 0\<rparr>"

text \<open>The palette that a call finds, or fills when it finds none.\<close>

definition palette :: "registry \<Rightarrow> QColor list" where
  "palette st = (if vibrantColors st = [] then default_colors else vibrantColors st)"

section \<open>The export of the displayed table\<close>

definition dquote :: char where
  "dquote = CHR 0x22"

definition newline :: char where
  "newline = CHR 0x0A"

text \<open>\<open>qField.replace("\"", "\"\"")\<close>: every double quote is doubled.\<close>

definition replace_quotes :: "string \<Rightarrow> string" where
  "replace_quotes s = concat (map (\<lambda>c. if c = dquote then [dquote, dquote] else [c]) s)"

text \<open>What the loop over the fields of a data row appends to \<open>qRow\<close> for one field.\<close>

definition row_field :: "string \<Rightarrow> string" where
  "row_field field =
     (if CHR '','' \<in> set field \<or> dquote \<in> set field \<or> newline \<in> set field
      then [dquote] @ replace_quotes field @ [dquote]
      else field)"

text \<open>
  \<open>MainWindow::exportFilteredData\<close>, given the table displayed, the path the file
  dialog returns and whether the file opens for writing: the three early returns, or the
  text written to the file.
\<close>

datatype export_outcome = NoDataToExport | NoFileChosen | OpenFailed | Written string

definition exportFilteredData :: "CsvData \<Rightarrow> string \<Rightarrow> bool \<Rightarrow> export_outcome" where
  "exportFilteredData currentlyDisplayedData path opens =
     (if rows currentlyDisplayedData = [] then NoDataToExport
      else if path = [] then NoFileChosen
      else if \<not> opens then OpenFailed
      else Written
             (join '','' (headers currentlyDisplayedData) @ [newline]
              @ concat (map (\<lambda>row. join '','' (map row_field row) @ [newline])
                          (rows currentlyDisplayedData))))"

section \<open>The scatter plot\<close>

text \<open>
  \<open>qreal\<close> coordinates are values of \<open>double\<close>, as above: finite numbers, the two
  infinities and NaN, compared as IEEE 754 compares them. The four arithmetic operations
  of the machine are parameters of the model, as \<open>QString::toDouble\<close> is: \<open>fadd\<close>,
  \<open>fsub\<close>, \<open>fmul\<close> and \<open>fdiv\<close> stand for the binary64 \<open>+\<close>, \<open>-\<close>, \<open>*\<close> and \<open>/\<close>, with
  whatever rounding they do. Nothing below assumes that they are exact.
\<close>

record fpu =
  fadd :: "double \<Rightarrow> double \<Rightarrow> double"
  fsub :: "double \<Rightarrow> double \<Rightarrow> double"
  fmul :: "double \<Rightarrow> double \<Rightarrow> double"
  fdiv :: "double \<Rightarrow> double \<Rightarrow> double"

text \<open>The conversion of an \<open>int\<close> to \<open>double\<close>; every 32-bit integer is a binary64
  number, so it is exact.\<close>

definition double_of_int :: "int \<Rightarrow> double" where
  "double_of_int n = Finite (real_of_int n)"

text \<open>A \<open>QPointF\<close> is the pair of its \<open>x()\<close> and \<open>y()\<close>; a \<open>QRectF\<close> holds its left edge,
  its top edge, its width and its height.\<close>

type_synonym QPointF = "double \<times> double"

record QRectF =
  rectf_left :: double
  rectf_top :: double
  rectf_width :: double
  rectf_height :: double

text \<open>The four local variables of \<open>calculateDataBoundingRect\<close>.\<close>

record extent =
  minX :: double
  maxX :: double
  minY :: double
  maxY :: double

text \<open>The body of the loop over the points: four independent updates.\<close>

definition include_point :: "QPointF \<Rightarrow> extent \<Rightarrow> extent" where
  "include_point point e =
     \<lparr>minX = (if double_less (fst point) (minX e) then fst point else minX e),
      maxX = (if double_less (maxX e) (fst point) then fst point else maxX e),
      minY = (if double_less (snd point) (minY e) then snd point else minY e),
      maxY = (if double_less (maxY e) (snd point) then snd point else maxY e)\<rparr>"

definition calculateDataBoundingRect :: "fpu \<Rightarrow> QPointF list \<Rightarrow> QRectF" where
  "calculateDataBoundingRect fp plotData =
     (case plotData of
        [] \<Rightarrow> \<lparr>rectf_left = Finite 0, rectf_top = Finite 0,
               rectf_width = Finite 1, rectf_height = Finite 1\<rparr>
      | first # others \<Rightarrow>
          (let e0 = \<lparr>minX = fst first, maxX = fst first, minY = snd first, maxY = snd first\<rparr>;
               e1 = fold include_point plotData e0;
               e2 = (if double_eq (minX e1) (maxX e1)
                     then e1\<lparr>minX := fsub fp (minX e1) (Finite 0.5),
                             maxX := fadd fp (maxX e1) (Finite 0.5)\<rparr>
                     else e1);
               e3 = (if double_eq (minY e2) (maxY e2)
                     then e2\<lparr>minY := fsub fp (minY e2) (Finite 0.5),
                             maxY := fadd fp (maxY e2) (Finite 0.5)\<rparr>
                     else e2);
               width = fsub fp (maxX e3) (minX e3);
               height = fsub fp (maxY e3) (minY e3)
           in \<lparr>rectf_left = minX e3, rectf_top = minY e3,
               rectf_width = (if double_eq width (Finite 0) then Finite 1.0 else width),
               rectf_height = (if double_eq height (Finite 0) then Finite 1.0 else height)\<rparr>))"

text \<open>
  A \<open>QRect\<close> with integer coordinates. \<open>QRect::bottom()\<close> is \<open>top() + height() - 1\<close> and
  \<open>QRect::right()\<close> is \<open>left() + width() - 1\<close>; \<open>isValid()\<close> is
  \<open>left() <= right() && top() <= bottom()\<close>.
\<close>

record QRect =
  rect_left :: int
  rect_top :: int
  rect_width :: int
  rect_height :: int

definition rect_right :: "QRect \<Rightarrow> int" where
  "rect_right r = rect_left r + rect_width r - 1"

definition rect_bottom :: "QRect \<Rightarrow> int" where
  "rect_bottom r = rect_top r + rect_height r - 1"

definition isValid :: "QRect \<Rightarrow> bool" where
  "isValid r = (rect_left r \<le> rect_right r \<and> rect_top r \<le> rect_bottom r)"

text \<open>The plot area of a widget of the given width and height: the margins are 30 above,
  50 below, 60 on the left and 20 on the right.\<close>

definition plotRect :: "int \<Rightarrow> int \<Rightarrow> QRect" where
  "plotRect w h =
     \<lparr>rect_left = 60, rect_top = 30, rect_width = w - 60 - 20, rect_height = h - 30 - 50\<rparr>"

text \<open>
  \<open>SimplePlotWidget::paintEvent\<close>, as far as the points go: for a widget of width \<open>w\<close> and
  height \<open>h\<close>, the pairs \<open>(pointX, pointY)\<close> of the squares it draws, in order; none after
  one of its two early returns.
\<close>

definition paintEvent :: "fpu \<Rightarrow> int \<Rightarrow> int \<Rightarrow> QPointF list \<Rightarrow> QRectF \<Rightarrow> QPointF list" where
  "paintEvent fp w h plotData dataBoundingRect =
     (let r = plotRect w h in
      if \<not> isValid r \<or> rect_width r < 1 \<or> rect_height r < 1 then []
      else if plotData = [] \<or> double_le (rectf_width dataBoundingRect) (Finite 0)
                \<or> double_le (rectf_height dataBoundingRect) (Finite 0) then []
      else (let sx = fdiv fp (double_of_int (rect_width r)) (rectf_width dataBoundingRect);
                sy = fdiv fp (double_of_int (rect_height r)) (rectf_height dataBoundingRect)
            in map (\<lambda>dataPoint.
                      (fadd fp (double_of_int (rect_left r))
                         (fmul fp (fsub fp (fst dataPoint) (rectf_left dataBoundingRect)) sx),
                       fsub fp (double_of_int (rect_bottom r))
                         (fmul fp (fsub fp (snd dataPoint) (rectf_top dataBoundingRect)) sy)))
                 plotData))"

text \<open>\<open>setData\<close> stores the points and computes their bounding rectangle; the next
  \<open>paintEvent\<close> draws them.\<close>

definition painted :: "fpu \<Rightarrow> int \<Rightarrow> int \<Rightarrow> QPointF list \<Rightarrow> QPointF list" where
  "painted fp w h plotData = paintEvent fp w h plotData (calculateDataBoundingRect fp plotData)"

text \<open>
  What is used of binary64 arithmetic. A number \<open>k / 2\<close> with an integer \<open>k\<close> of magnitude
  below $2^{53}$ is a binary64 number, and IEEE 754 rounds the result of an operation
  correctly, so an operation on two such numbers whose exact result is such a number
  returns that result.
\<close>

definition half_int :: "real \<Rightarrow> bool" where
  "half_int r = (\<exists>k::int. \<bar>k\<bar> < 2 ^ 53 \<and> r = real_of_int k / 2)"

definition exact_on_halves :: "fpu \<Rightarrow> bool" where
  "exact_on_halves fp =
     (\<forall>a b. half_int a \<and> half_int b \<longrightarrow>
        (half_int (a + b) \<longrightarrow> fadd fp (Finite a) (Finite b) = Finite (a + b))
      \<and> (half_int (a - b) \<longrightarrow> fsub fp (Finite a) (Finite b) = Finite (a - b))
      \<and> (half_int (a * b) \<longrightarrow> fmul fp (Finite a) (Finite b) = Finite (a * b))
      \<and> (b \<noteq> 0 \<and> half_int (a / b) \<longrightarrow> fdiv fp (Finite a) (Finite b) = Finite (a / b)))"

text \<open>An arithmetic for the examples: the operations without rounding on finite numbers.
  The examples apply it where binary64 does not round either.\<close>

fun unrounded :: "(real \<Rightarrow> real \<Rightarrow> real) \<Rightarrow> double \<Rightarrow> double \<Rightarrow> double" where
  "unrounded f (Finite a) (Finite b) = Finite (f a b)"
| "unrounded f a b = NaN"

fun unrounded_div :: "double \<Rightarrow> double \<Rightarrow> double" where
  "unrounded_div (Finite a) (Finite b) =
     (if b \<noteq> 0 then Finite (a / b)
      else if a = 0 then NaN else if 0 < a then PosInf else NegInf)"
| "unrounded_div a b = NaN"

definition unrounded_fpu :: fpu where
  "unrounded_fpu =
     \<lparr>fadd = unrounded (+), fsub = unrounded (-), fmul = unrounded (*), fdiv = unrounded_div\<rparr>"

section \<open>Properties of the loader\<close>

lemma read_rows_emitted:
  "list_all is_progress (emitted st) \<Longrightarrow>
   list_all is_progress (emitted (read_rows isCancelled fileSize ls st))"
  by (induction ls arbitrary: st) (simp_all add: read_row_def Let_def)

lemma read_row_fields [simp]:
  "headers (csvData (read_row fs l st)) = headers (csvData st)"
  "rows (csvData (read_row fs l st)) = rows (csvData st) @ [split_fields l]"
  "rowsLoaded (read_row fs l st) = Suc (rowsLoaded st)"
  "polls (read_row fs l st) = Suc (polls st)"
  by (simp_all add: read_row_def Let_def)

lemma read_rows_uncancelled:
  assumes "\<forall>k. \<not> isCancelled k"
  shows "headers (csvData (read_rows isCancelled fs ls st)) = headers (csvData st)
       \<and> rows (csvData (read_rows isCancelled fs ls st))
           = rows (csvData st) @ map split_fields (take (MAX_ROWS_TO_LOAD - rowsLoaded st) ls)
       \<and> rowsLoaded (read_rows isCancelled fs ls st)
           = rowsLoaded st + min (length ls) (MAX_ROWS_TO_LOAD - rowsLoaded st)"
  using assms
proof (induction ls arbitrary: st)
  case Nil
  then show ?case by simp
next
  case (Cons l ls)
  show ?case
  proof (cases "rowsLoaded st < MAX_ROWS_TO_LOAD")
    case True
    then obtain d where d: "MAX_ROWS_TO_LOAD - rowsLoaded st = Suc d"
      by (cases "MAX_ROWS_TO_LOAD - rowsLoaded st") auto
    then have d': "MAX_ROWS_TO_LOAD - Suc (rowsLoaded st) = d" by simp
    from True Cons.prems Cons.IH [of "read_row fs l st"] show ?thesis
      by (simp add: d d')
  next
    case False
    then show ?thesis by simp
  qed
qed

lemma read_rows_polls:
  "polls st \<le> polls (read_rows isCancelled fs ls st) \<and>
   (polls (read_rows isCancelled fs ls st)
      = polls st + min (length ls) (MAX_ROWS_TO_LOAD - rowsLoaded st)
    \<or> (\<exists>j. j < polls (read_rows isCancelled fs ls st) \<and> isCancelled j))"
proof (induction ls arbitrary: st)
  case Nil
  then show ?case by simp
next
  case (Cons l ls)
  show ?case
  proof (cases "rowsLoaded st < MAX_ROWS_TO_LOAD")
    case False
    then show ?thesis by simp
  next
    case True
    show ?thesis
    proof (cases "isCancelled (polls st)")
      case True
      with \<open>rowsLoaded st < MAX_ROWS_TO_LOAD\<close> show ?thesis by auto
    next
      case False
      from True obtain d where d: "MAX_ROWS_TO_LOAD - rowsLoaded st = Suc d"
        by (cases "MAX_ROWS_TO_LOAD - rowsLoaded st") auto
      then have d': "MAX_ROWS_TO_LOAD - Suc (rowsLoaded st) = d" by simp
      from True False Cons.IH [of "read_row fs l st"] show ?thesis
        by (auto simp add: d d')
    qed
  qed
qed

lemma latched_final:
  assumes "latched isCancelled" "isCancelled k"
    and "k \<le> polls st + min (length ls) (MAX_ROWS_TO_LOAD - rowsLoaded st)"
  shows "isCancelled (polls (read_rows isCancelled fs ls st))"
proof -
  let ?p = "polls (read_rows isCancelled fs ls st)"
  from read_rows_polls [of st isCancelled fs ls]
  consider "?p = polls st + min (length ls) (MAX_ROWS_TO_LOAD - rowsLoaded st)"
    | j where "j < ?p" "isCancelled j" by blast
  then show ?thesis
  proof cases
    case 1
    with assms show ?thesis unfolding latched_def by metis
  next
    case 2
    with assms(1) show ?thesis unfolding latched_def by (metis less_imp_le)
  qed
qed

lemma after_header_fields [simp]:
  "emitted (after_header h) = [progressUpdated 0 ''Header loaded.'']"
  "polls (after_header h) = 0"
  "rowsLoaded (after_header h) = 0"
  "headers (csvData (after_header h)) = split_fields h"
  "rows (csvData (after_header h)) = []"
  by (simp_all add: after_header_def)

lemma split_at_nonempty: "split_at sep s \<noteq> []"
  by (induction s) (auto split: list.splits)

lemma split_fields_nonempty: "split_fields l \<noteq> []"
  by (simp add: split_fields_def split_at_nonempty)

lemma progress_not_terminal:
  "list_all is_progress xs \<Longrightarrow> filter is_terminal xs = []"
proof (induction xs)
  case Nil
  then show ?case by simp
next
  case (Cons x xs)
  then show ?case by (cases x) simp_all
qed

lemma finish_terminal:
  assumes "list_all is_progress (emitted st)"
  shows "length (filter is_terminal (finish isCancelled st)) = 1
       \<and> is_terminal (last (finish isCancelled st))"
  using progress_not_terminal [OF assms] by (simp add: finish_def)

text \<open>
  C10. Whatever the file and whatever the flag does, \<open>run\<close> emits exactly one terminal
  signal (an \<open>errorOccurred\<close> or a \<open>loadingFinished\<close>, so never both and never
  neither), and it is the last signal emitted.
\<close>

theorem run_one_terminal:
  "length (filter is_terminal (run isCancelled file)) = 1
   \<and> is_terminal (last (run isCancelled file))"
proof (cases "file_exists file \<and> file_opens file")
  case False
  then show ?thesis by (auto simp add: run_def)
next
  case True
  show ?thesis
  proof (cases "file_lines file")
    case Nil
    with True show ?thesis by (simp add: run_def)
  next
    case (Cons h rest)
    let ?st = "read_rows isCancelled (file_size file) rest ((after_header h)\<lparr>polls := Suc 0\<rparr>)"
    have "list_all is_progress (emitted ?st)"
      by (rule read_rows_emitted) simp
    from finish_terminal [OF this, of isCancelled] True Cons show ?thesis
      by (simp add: run_def Let_def)
  qed
qed

text \<open>
  C1. A file that exists and opens, with a header line and \<open>N\<close> data lines after it,
  loaded with the cancellation flag never set: \<open>run\<close> emits progress signals and then
  \<open>loadingFinished\<close> with a table whose header list is the split header line and whose
  rows are the first \<open>min N 50000\<close> data lines, split; so exactly \<open>N\<close> rows up to the
  cap and exactly 50000 beyond it.
\<close>

theorem load_delivers_min_rows:
  assumes "file_exists file" and "file_opens file"
    and "file_lines file = headerLine # dataLines"
    and "\<forall>k. \<not> isCancelled k"
  shows "\<exists>progress table.
           run isCancelled file = progress @ [loadingFinished table]
         \<and> list_all is_progress progress
         \<and> headers table = split_fields headerLine
         \<and> rows table = map split_fields (take 50000 dataLines)
         \<and> length (rows table) = min (length dataLines) 50000"
proof -
  let ?init = "(after_header headerLine)\<lparr>polls := Suc 0\<rparr>"
  let ?st = "read_rows isCancelled (file_size file) dataLines ?init"
  have prog: "list_all is_progress (emitted ?st)"
    by (rule read_rows_emitted) simp
  from read_rows_uncancelled [OF assms(4), of "file_size file" dataLines ?init]
  have h: "headers (csvData ?st) = split_fields headerLine"
    and r: "rows (csvData ?st) = map split_fields (take 50000 dataLines)"
    by (simp_all add: MAX_ROWS_TO_LOAD_def)
  have run: "run isCancelled file = finish isCancelled ?st"
    using assms by (simp add: run_def Let_def)
  have "\<exists>progress. finish isCancelled ?st = progress @ [loadingFinished (csvData ?st)]
          \<and> list_all is_progress progress"
  proof (cases "rowsLoaded ?st = 0")
    case True
    with assms(4) h prog show ?thesis
      by (simp add: finish_def split_fields_nonempty)
  next
    case False
    let ?p = "emitted ?st @ [progressUpdated 100
                (''Finished loading '' @ arg_number (rowsLoaded ?st) @ '' rows.'')]"
    from False assms(4) have "finish isCancelled ?st = ?p @ [loadingFinished (csvData ?st)]"
      by (simp add: finish_def)
    moreover from prog have "list_all is_progress ?p" by simp
    ultimately show ?thesis by blast
  qed
  with run h r show ?thesis by (auto simp add: min.commute)
qed

theorem load_delivers_min_rows_witness:
  "\<exists>progress table.
     run (\<lambda>k. False) (example_file [''x,y'', ''1,2'', ''3,4''])
       = progress @ [loadingFinished table]
   \<and> headers table = [''x'', ''y'']
   \<and> rows table = [[''1'', ''2''], [''3'', ''4'']]"
  using load_delivers_min_rows [of "example_file [''x,y'', ''1,2'', ''3,4'']"
          "''x,y''" "[''1,2'', ''3,4'']" "\<lambda>k. False"]
  by (simp add: example_file_def split_fields_def trimmed_def isSpace_def) blast

text \<open>The loop is left at the first poll that reads \<open>true\<close>: when that is the poll
  \<open>n\<close> polls after the current one, the loop reads the next \<open>n\<close> lines, as it would with no
  cancellation, reads the flag once more and nothing else.\<close>

lemma read_rows_stops:
  assumes "isCancelled (polls st + n)"
    and "\<forall>j < n. \<not> isCancelled (polls st + j)"
    and "n < length ls"
    and "rowsLoaded st + n < MAX_ROWS_TO_LOAD"
  shows "read_rows isCancelled fs ls st
           = (read_rows (\<lambda>j. False) fs (take n ls) st)\<lparr>polls := Suc (polls st + n)\<rparr>"
  using assms
proof (induction ls arbitrary: st n)
  case Nil
  then show ?case by simp
next
  case (Cons l ls)
  show ?case
  proof (cases n)
    case 0
    with Cons.prems show ?thesis by simp
  next
    case (Suc m)
    from Cons.prems(2) Suc have first: "\<not> isCancelled (polls st)"
      by (metis add.right_neutral zero_less_Suc)
    from Cons.prems(4) Suc have cap: "rowsLoaded st < MAX_ROWS_TO_LOAD" by simp
    let ?next = "read_row fs l st"
    have a: "isCancelled (polls ?next + m)"
      using Cons.prems(1) Suc by simp
    have b: "\<forall>j < m. \<not> isCancelled (polls ?next + j)"
    proof (intro allI impI)
      fix j assume "j < m"
      then have "Suc j < n" using Suc by simp
      with Cons.prems(2) have "\<not> isCancelled (polls st + Suc j)" by blast
      then show "\<not> isCancelled (polls ?next + j)" by simp
    qed
    have c: "m < length ls" using Cons.prems(3) Suc by simp
    have d: "rowsLoaded ?next + m < MAX_ROWS_TO_LOAD" using Cons.prems(4) Suc by simp
    from Cons.IH [OF a b c d] first cap Suc show ?thesis by simp
  qed
qed

lemma run_rows_loop:
  assumes "file_exists file" and "file_opens file"
    and "file_lines file = headerLine # dataLines"
    and "\<not> isCancelled 0"
  shows "run isCancelled file
           = finish isCancelled (rows_loop isCancelled (file_size file) headerLine dataLines)"
  using assms by (simp add: run_def rows_loop_def Let_def)

text \<open>
  C5. The reads of the flag with index \<open>0\<close> (before the loop) and \<open>1 \<dots> min N 50000\<close> (one
  per row) are the poll points. If the flag, once set, stays set, and it is set at a poll
  point, then the last signal of \<open>run\<close> is \<open>errorOccurred\<close> with one of the two
  cancellation messages, everything before it is progress, and no \<open>loadingFinished\<close>
  is emitted: no table, partial or whole, is delivered. And the loader stops there: when
  \<open>k\<close> is the first poll at which the flag is set, then for \<open>k = 0\<close> no row is read and
  \<open>run\<close> emits the header progress and the error, and for \<open>k > 0\<close> the loop is left with
  exactly the \<open>k - 1\<close> rows read before that poll, in the state that reading those
  \<open>k - 1\<close> lines alone leaves but for the count of polls, which is \<open>k + 1\<close>, and \<open>run\<close>
  emits the signals of reading those \<open>k - 1\<close> lines and then the error.
\<close>

theorem cancelled_load_reports_cancelled:
  assumes "file_exists file" and "file_opens file"
    and "file_lines file = headerLine # dataLines"
    and "latched isCancelled"
    and "isCancelled k" and "k \<le> min (length dataLines) MAX_ROWS_TO_LOAD"
  shows "(\<exists>progress msg.
           run isCancelled file = progress @ [errorOccurred msg]
         \<and> list_all is_progress progress
         \<and> (msg = ''Loading cancelled by user.''
              \<or> msg = ''Loading cancelled by user during row processing.'')
         \<and> (\<forall>table. loadingFinished table \<notin> set (run isCancelled file)))
       \<and> ((\<forall>j < k. \<not> isCancelled j) \<longrightarrow>
            (k = 0 \<longrightarrow>
               run isCancelled file
                 = [progressUpdated 0 ''Header loaded.'',
                    errorOccurred ''Loading cancelled by user.''])
          \<and> (0 < k \<longrightarrow>
               rows_loop isCancelled (file_size file) headerLine dataLines
                 = (rows_loop (\<lambda>j. False) (file_size file) headerLine (take (k - 1) dataLines))
                     \<lparr>polls := Suc k\<rparr>
             \<and> rowsLoaded (rows_loop isCancelled (file_size file) headerLine dataLines) = k - 1
             \<and> rows (csvData (rows_loop isCancelled (file_size file) headerLine dataLines))
                 = map split_fields (take (k - 1) dataLines)
             \<and> run isCancelled file
                 = emitted (rows_loop (\<lambda>j. False) (file_size file) headerLine
                              (take (k - 1) dataLines))
                   @ [errorOccurred ''Loading cancelled by user during row processing.'']))"
proof (intro conjI impI)
  show "\<exists>progress msg.
           run isCancelled file = progress @ [errorOccurred msg]
         \<and> list_all is_progress progress
         \<and> (msg = ''Loading cancelled by user.''
              \<or> msg = ''Loading cancelled by user during row processing.'')
         \<and> (\<forall>table. loadingFinished table \<notin> set (run isCancelled file))"
  proof (cases "isCancelled 0")
    case True
    with assms(1-3) have "run isCancelled file
        = [progressUpdated 0 ''Header loaded.''] @ [errorOccurred ''Loading cancelled by user.'']"
      by (simp add: run_def Let_def)
    then show ?thesis by auto
  next
    case False
    let ?init = "(after_header headerLine)\<lparr>polls := Suc 0\<rparr>"
    let ?st = "read_rows isCancelled (file_size file) dataLines ?init"
    have prog: "list_all is_progress (emitted ?st)"
      by (rule read_rows_emitted) simp
    from assms(6) have "k \<le> polls ?init + min (length dataLines) (MAX_ROWS_TO_LOAD - rowsLoaded ?init)"
      by (simp add: min_def split: if_splits)
    from latched_final [OF assms(4,5) this]
    have c: "isCancelled (polls ?st)" .
    have "run isCancelled file = finish isCancelled ?st"
      using False assms(1-3) by (simp add: run_def Let_def)
    also have "\<dots> = emitted ?st @ [errorOccurred ''Loading cancelled by user during row processing.'']"
      unfolding finish_def using c by (rule if_P)
    finally have run: "run isCancelled file
        = emitted ?st @ [errorOccurred ''Loading cancelled by user during row processing.'']" .
    have "loadingFinished table \<notin> set (emitted ?st)" for table
      using prog by (auto simp add: list_all_iff)
    with run prog show ?thesis by auto
  qed
next
  assume "k = 0"
  with assms(1-3,5) show "run isCancelled file
      = [progressUpdated 0 ''Header loaded.'', errorOccurred ''Loading cancelled by user.'']"
    by (simp add: run_def Let_def)
next
  assume first: "\<forall>j < k. \<not> isCancelled j" and pos: "0 < k"
  let ?init = "(after_header headerLine)\<lparr>polls := Suc 0\<rparr>"
  let ?quiet = "rows_loop (\<lambda>j. False) (file_size file) headerLine (take (k - 1) dataLines)"
  let ?st = "rows_loop isCancelled (file_size file) headerLine dataLines"
  from pos assms(5) have a: "isCancelled (polls ?init + (k - 1))" by simp
  have b: "\<forall>j < k - 1. \<not> isCancelled (polls ?init + j)"
  proof (intro allI impI)
    fix j assume "j < k - 1"
    then have "Suc j < k" by simp
    with first show "\<not> isCancelled (polls ?init + j)" by simp
  qed
  from pos assms(6) have c: "k - 1 < length dataLines" by (cases k) simp_all
  from pos assms(6) have d: "rowsLoaded ?init + (k - 1) < MAX_ROWS_TO_LOAD"
    by (cases k) simp_all
  from read_rows_stops [OF a b c d, of "file_size file"] pos
  show stop: "?st = ?quiet\<lparr>polls := Suc k\<rparr>"
    by (simp add: rows_loop_def)
  from assms(6) have cap: "k - 1 \<le> MAX_ROWS_TO_LOAD" by (cases k) simp_all
  from read_rows_uncancelled [of "\<lambda>j. False" "file_size file" "take (k - 1) dataLines" ?init] c cap
  have qn: "rowsLoaded ?quiet = k - 1"
    and qr: "rows (csvData ?quiet) = map split_fields (take (k - 1) dataLines)"
    by (simp_all add: rows_loop_def min_def)
  from stop qn show "rowsLoaded ?st = k - 1" by simp
  from stop qr show "rows (csvData ?st) = map split_fields (take (k - 1) dataLines)" by simp
  from first pos have "\<not> isCancelled 0" by simp
  with run_rows_loop [of "file" "headerLine" "dataLines" "isCancelled"] assms(1-3)
  have "run isCancelled file = finish isCancelled (?quiet\<lparr>polls := Suc k\<rparr>)"
    by (simp add: stop)
  moreover from assms(4,5) have "isCancelled (Suc k)"
    unfolding latched_def by (metis le_SucI order_refl)
  ultimately show "run isCancelled file
      = emitted ?quiet @ [errorOccurred ''Loading cancelled by user during row processing.'']"
    by (simp add: finish_def)
qed

theorem cancelled_load_reports_cancelled_witness:
  "latched (\<lambda>k. 2 \<le> k)
   \<and> rowsLoaded (rows_loop (\<lambda>k. 2 \<le> k) 20 ''x,y'' [''1,2'', ''3,4'', ''5,6'']) = 1
   \<and> rows (csvData (rows_loop (\<lambda>k. 2 \<le> k) 20 ''x,y'' [''1,2'', ''3,4'', ''5,6'']))
       = [[''1'', ''2'']]
   \<and> polls (rows_loop (\<lambda>k. 2 \<le> k) 20 ''x,y'' [''1,2'', ''3,4'', ''5,6'']) = 3
   \<and> run (\<lambda>k. 2 \<le> k) (example_file [''x,y'', ''1,2'', ''3,4'', ''5,6''])
       = [progressUpdated 0 ''Header loaded.'',
          errorOccurred ''Loading cancelled by user during row processing.'']"
proof -
  have l: "latched (\<lambda>k. (2::nat) \<le> k)" by (simp add: latched_def)
  have q: "rows_loop (\<lambda>j. False) 20 ''x,y'' [''1,2'']
      = \<lparr>csvData = \<lparr>headers = [''x'', ''y''], rows = [[''1'', ''2'']]\<rparr>,
         bytesRead = 8, rowsLoaded = 1, polls = 2,
         emitted = [progressUpdated 0 ''Header loaded.'']\<rparr>"
    by (simp add: rows_loop_def after_header_def read_row_def Let_def MAX_ROWS_TO_LOAD_def
          split_fields_def trimmed_def isSpace_def)
  note t = cancelled_load_reports_cancelled
             [of "example_file [''x,y'', ''1,2'', ''3,4'', ''5,6'']"
                 "''x,y''" "[''1,2'', ''3,4'', ''5,6'']" "\<lambda>k. 2 \<le> k" 2, OF _ _ _ l]
  have s: "rows_loop (\<lambda>k. 2 \<le> k) 20 ''x,y'' [''1,2'', ''3,4'', ''5,6'']
             = (rows_loop (\<lambda>j. False) 20 ''x,y'' [''1,2''])\<lparr>polls := 3\<rparr>"
    and r: "run (\<lambda>k. 2 \<le> k) (example_file [''x,y'', ''1,2'', ''3,4'', ''5,6''])
             = emitted (rows_loop (\<lambda>j. False) 20 ''x,y'' [''1,2''])
               @ [errorOccurred ''Loading cancelled by user during row processing.'']"
    using t by (simp_all add: example_file_def MAX_ROWS_TO_LOAD_def less_Suc_eq)
  from l s r show ?thesis by (simp add: q)
qed

text \<open>
  C9. A file that exists and opens and holds a header line and nothing else, loaded without
  a cancellation at either read of the flag: \<open>run\<close> emits the header progress signal and
  then \<open>loadingFinished\<close> with the header list, which is not empty, and no rows.
\<close>

theorem header_only_load_succeeds:
  assumes "file_exists file" and "file_opens file"
    and "file_lines file = [headerLine]"
    and "\<not> isCancelled 0" and "\<not> isCancelled 1"
  shows "run isCancelled file
           = [progressUpdated 0 ''Header loaded.'',
              loadingFinished \<lparr>headers = split_fields headerLine, rows = []\<rparr>]
         \<and> split_fields headerLine \<noteq> []"
  using assms
  by (simp add: run_def Let_def after_header_def finish_def split_fields_nonempty)

theorem header_only_load_succeeds_witness:
  "run (\<lambda>k. False) (example_file [''x,y''])
     = [progressUpdated 0 ''Header loaded.'',
        loadingFinished \<lparr>headers = [''x'', ''y''], rows = []\<rparr>]"
  using header_only_load_succeeds [of "example_file [''x,y'']" "''x,y''" "\<lambda>k. False"]
  by (simp add: example_file_def split_fields_def trimmed_def isSpace_def)

section \<open>Properties of the filter\<close>

lemma filters_loop_iff:
  "filters_loop toDouble fs cs
     = (\<forall>i < min (length fs) (length cs).
          fs ! i = [] \<or> currentFilterMatches toDouble (cs ! i) (fs ! i))"
proof (induction toDouble fs cs rule: filters_loop.induct)
  case (1 toDouble cells)
  then show ?case by simp
next
  case (2 toDouble f fs)
  then show ?case by simp
next
  case (3 toDouble f fs c cs)
  have split: "(\<forall>i < Suc n. P i) = (P 0 \<and> (\<forall>i < n. P (Suc i)))" for n and P :: "nat \<Rightarrow> bool"
    by (auto simp add: less_Suc_eq_0_disj)
  from 3 show ?case by (simp add: split)
qed

lemma matchesAllFilters_iff:
  "matchesAllFilters toDouble active row
     = (length active \<le> length row \<and> satisfies_all toDouble active row)"
  by (auto simp add: matchesAllFilters_def satisfies_all_def filters_loop_iff list_all_iff)

lemma length_activeFilters [simp]:
  "length (activeFilters headerFilters) = length headerFilters"
  by (simp add: activeFilters_def)

lemma applyTableFilters_active:
  assumes "list_ex (\<lambda>f. f \<noteq> []) (activeFilters headerFilters)"
  shows "applyTableFilters toDouble table headerFilters
           = \<lparr>headers = headers table,
              rows = filter (\<lambda>row. length headerFilters \<le> length row
                                  \<and> satisfies_all toDouble (activeFilters headerFilters) row)
                       (rows table)\<rparr>"
proof -
  have "matchesAllFilters toDouble (activeFilters headerFilters)
          = (\<lambda>row. length headerFilters \<le> length row
                  \<and> satisfies_all toDouble (activeFilters headerFilters) row)"
    by (rule ext) (simp add: matchesAllFilters_iff)
  with assms show ?thesis
    by (simp add: applyTableFilters_def Let_def)
qed

lemma toDouble_decimal_examples:
  "toDouble_decimal ''1'' = Some (Finite 1)"
  "toDouble_decimal ''5'' = Some (Finite 5)"
  "toDouble_decimal ''6'' = Some (Finite 6)"
  "toDouble_decimal ''10'' = Some (Finite 10)"
  "toDouble_decimal ''15'' = Some (Finite 15)"
  "toDouble_decimal ''20'' = Some (Finite 20)"
  "toDouble_decimal ''25'' = Some (Finite 25)"
  "toDouble_decimal ''10:20'' = None"
  by (simp_all add: toDouble_decimal_def trimmed_def isSpace_def startsWith_def mid_def
        digit_value_def)

text \<open>
  C2. When at least one filter is not empty, the rows kept are, in their
  original order, exactly the rows that have at least as many cells as there are filter
  boxes and satisfy every non-empty filter; the headers are unchanged. In particular the
  table \<open>[["1","a"],["6","a"],["6","b"]]\<close> with the filters \<open>">5"\<close> and \<open>"a"\<close> yields
  exactly \<open>[["6","a"]]\<close>, for every number parser that reads "1", "5" and "6" as the
  numbers 1, 5 and 6.
\<close>

theorem filters_keep_matching_rows:
  "(list_ex (\<lambda>f. f \<noteq> []) (activeFilters headerFilters) \<longrightarrow>
      headers (applyTableFilters toDouble table headerFilters) = headers table
    \<and> rows (applyTableFilters toDouble table headerFilters)
        = filter (\<lambda>row. length headerFilters \<le> length row
                        \<and> satisfies_all toDouble (activeFilters headerFilters) row)
            (rows table))
   \<and> (toDouble ''1'' = Some (Finite 1) \<and> toDouble ''6'' = Some (Finite 6)
        \<and> toDouble ''5'' = Some (Finite 5) \<longrightarrow>
      applyTableFilters toDouble
        \<lparr>headers = hs, rows = [[''1'', ''a''], [''6'', ''a''], [''6'', ''b'']]\<rparr>
        [Some ''>5'', Some ''a'']
      = \<lparr>headers = hs, rows = [[''6'', ''a'']]\<rparr>)"
proof (intro conjI impI)
  assume "list_ex (\<lambda>f. f \<noteq> []) (activeFilters headerFilters)"
  then show "headers (applyTableFilters toDouble table headerFilters) = headers table"
    by (simp add: applyTableFilters_active)
next
  assume "list_ex (\<lambda>f. f \<noteq> []) (activeFilters headerFilters)"
  then show "rows (applyTableFilters toDouble table headerFilters)
        = filter (\<lambda>row. length headerFilters \<le> length row
                        \<and> satisfies_all toDouble (activeFilters headerFilters) row)
            (rows table)"
    by (simp add: applyTableFilters_active)
next
  assume td: "toDouble ''1'' = Some (Finite 1) \<and> toDouble ''6'' = Some (Finite 6)
        \<and> toDouble ''5'' = Some (Finite 5)"
  have act: "activeFilters [Some ''>5'', Some ''a''] = [''>5'', ''a'']"
    by (simp add: activeFilters_def trimmed_def isSpace_def)
  have m1: "\<not> currentFilterMatches toDouble ''1'' ''>5''"
    using td by (simp add: currentFilterMatches_def startsWith_def mid_def)
  have m6: "currentFilterMatches toDouble ''6'' ''>5''"
    using td by (simp add: currentFilterMatches_def startsWith_def mid_def)
  have ma: "currentFilterMatches toDouble ''a'' ''a''"
    by (simp add: currentFilterMatches_def startsWith_def contains_ci_def toLower_def)
  have mb: "\<not> currentFilterMatches toDouble ''b'' ''a''"
    by (simp add: currentFilterMatches_def startsWith_def contains_ci_def toLower_def)
  show "applyTableFilters toDouble
        \<lparr>headers = hs, rows = [[''1'', ''a''], [''6'', ''a''], [''6'', ''b'']]\<rparr>
        [Some ''>5'', Some ''a'']
      = \<lparr>headers = hs, rows = [[''6'', ''a'']]\<rparr>"
    by (simp add: applyTableFilters_def Let_def act matchesAllFilters_def m1 m6 ma mb)
qed

theorem filters_keep_matching_rows_witness:
  "list_ex (\<lambda>f. f \<noteq> []) (activeFilters [Some ''>5'', Some ''a''])
   \<and> toDouble_decimal ''1'' = Some (Finite 1)
   \<and> toDouble_decimal ''6'' = Some (Finite 6)
   \<and> toDouble_decimal ''5'' = Some (Finite 5)
   \<and> applyTableFilters toDouble_decimal
        \<lparr>headers = [''n'', ''s''], rows = [[''1'', ''a''], [''6'', ''a''], [''6'', ''b'']]\<rparr>
        [Some ''>5'', Some ''a'']
      = \<lparr>headers = [''n'', ''s''], rows = [[''6'', ''a'']]\<rparr>"
proof -
  have act: "list_ex (\<lambda>f. f \<noteq> []) (activeFilters [Some ''>5'', Some ''a''])"
    by (simp add: activeFilters_def trimmed_def isSpace_def)
  from filters_keep_matching_rows [of "[Some ''>5'', Some ''a'']" toDouble_decimal
         "\<lparr>headers = [''n'', ''s''], rows = [[''1'', ''a''], [''6'', ''a''], [''6'', ''b'']]\<rparr>"
         "[''n'', ''s'']"] toDouble_decimal_examples act
  show ?thesis by simp
qed

text \<open>
  Without the condition on the length the statement fails on a short row: with the headers \<open>x, y\<close>, the filter \<open>">5"\<close>
  on the first column and no filter on the second, the row \<open>["6"]\<close> satisfies the only
  non-empty filter and is dropped all the same.
\<close>

theorem short_row_counterexample:
  "list_ex (\<lambda>f. f \<noteq> []) (activeFilters [Some ''>5'', Some ''''])
   \<and> satisfies_all toDouble_decimal (activeFilters [Some ''>5'', Some '''']) [''6'']
   \<and> rows (applyTableFilters toDouble_decimal \<lparr>headers = [''x'', ''y''], rows = [[''6'']]\<rparr>
             [Some ''>5'', Some '''']) = []"
proof -
  have act: "activeFilters [Some ''>5'', Some ''''] = [''>5'', '''']"
    by (simp add: activeFilters_def trimmed_def isSpace_def)
  have m6: "currentFilterMatches toDouble_decimal ''6'' ''>5''"
    by (simp add: currentFilterMatches_def startsWith_def mid_def toDouble_decimal_examples)
  have up: "[0..<2] = [0, 1]" by (simp add: upt_rec)
  show ?thesis
    by (simp add: act satisfies_all_def up m6 applyTableFilters_def Let_def matchesAllFilters_def)
qed

text \<open>
  C8. When every filter text is empty (after the trimming \<open>applyTableFilters\<close> does), the
  displayed table is the loaded table itself: the same headers and the same rows with the
  same cells in the same order.
\<close>

theorem no_active_filter_identity:
  assumes "list_all (\<lambda>f. f = []) (activeFilters headerFilters)"
  shows "applyTableFilters toDouble table headerFilters = table"
proof -
  from assms have "\<not> list_ex (\<lambda>f. f \<noteq> []) (activeFilters headerFilters)"
    by (simp add: list_all_iff list_ex_iff)
  then show ?thesis by (simp add: applyTableFilters_def Let_def)
qed

theorem no_active_filter_identity_witness:
  "list_all (\<lambda>f. f = []) (activeFilters [Some '''', Some '' ''])
   \<and> applyTableFilters toDouble_decimal
       \<lparr>headers = [''n'', ''s''], rows = [[''6'', ''b''], [''1''], [''6'', ''a'']]\<rparr>
       [Some '''', Some '' '']
     = \<lparr>headers = [''n'', ''s''], rows = [[''6'', ''b''], [''1''], [''6'', ''a'']]\<rparr>"
proof -
  have e: "list_all (\<lambda>f. f = []) (activeFilters [Some '''', Some '' ''])"
    by (simp add: activeFilters_def trimmed_def isSpace_def)
  from no_active_filter_identity [OF e, of toDouble_decimal
          "\<lparr>headers = [''n'', ''s''], rows = [[''6'', ''b''], [''1''], [''6'', ''a'']]\<rparr>"] e
  show ?thesis by simp
qed

lemma split_at_without_sep: "sep \<notin> set s \<Longrightarrow> split_at sep s = [s]"
  by (induction s) auto

lemma split_at_two_parts:
  assumes "split_at sep s = [a, b]"
  shows "sep \<in> set s" and "s \<noteq> []"
proof -
  show "sep \<in> set s"
  proof (rule ccontr)
    assume "sep \<notin> set s"
    from split_at_without_sep [OF this] assms show False by simp
  qed
  then show "s \<noteq> []" by auto
qed

lemma double_le_inverted:
  "double_le lo v \<Longrightarrow> double_le v hi \<Longrightarrow> \<not> double_less hi lo"
  by (cases lo; cases v; cases hi) (auto simp add: double_le_def double_eq_def)

text \<open>What a range filter decides for one cell.\<close>

lemma range_filter_matches:
  assumes "\<not> startsWith f ''>''" and "\<not> startsWith f ''<''" and "\<not> startsWith f ''=''"
    and "split_at CHR '':'' f = [lo, hi]"
    and "toDouble lo = Some minVal" and "toDouble hi = Some maxVal"
  shows "currentFilterMatches toDouble c f
           = (case toDouble c of
                Some v \<Rightarrow> double_le minVal v \<and> double_le v maxVal
              | None \<Rightarrow> contains_ci c f)"
proof -
  from split_at_two_parts(1) [OF assms(4)] have "CHR '':'' \<in> set f" .
  with assms show ?thesis
    by (simp add: currentFilterMatches_def split: option.splits)
qed

text \<open>A row against filters of which only the one of column \<open>j\<close> is not empty.\<close>

lemma satisfies_single:
  assumes "j < length active"
    and "\<forall>i < length active. i \<noteq> j \<longrightarrow> active ! i = []"
    and "active ! j \<noteq> []"
  shows "satisfies_all toDouble active row
           = (j < length row \<and> currentFilterMatches toDouble (row ! j) (active ! j))"
  using assms by (auto simp add: satisfies_all_def list_all_iff)

text \<open>
  C3. With a range filter \<open>lo:hi\<close> on column \<open>j\<close>, both ends parsing as
  numbers, and no other filter, the rows kept are, in their original order, exactly the
  rows that have at least as many cells as there are filter boxes and whose cell in column
  \<open>j\<close> either parses as a number \<open>v\<close> with \<open>lo \<le> v \<le> hi\<close> (both ends inclusive), or does
  not parse as a number and contains the filter text, letter case ignored. So an inverted
  range keeps no row whose cell parses as a number.
\<close>

theorem range_filter_rows:
  assumes "j < length headerFilters"
    and "\<forall>i < length headerFilters. i \<noteq> j \<longrightarrow> activeFilters headerFilters ! i = []"
    and "activeFilters headerFilters ! j = f"
    and "\<not> startsWith f ''>''" and "\<not> startsWith f ''<''" and "\<not> startsWith f ''=''"
    and "split_at CHR '':'' f = [lo, hi]"
    and "toDouble lo = Some minVal" and "toDouble hi = Some maxVal"
  shows "rows (applyTableFilters toDouble table headerFilters)
           = filter (\<lambda>row. length headerFilters \<le> length row
                          \<and> (case toDouble (row ! j) of
                                Some v \<Rightarrow> double_le minVal v \<and> double_le v maxVal
                              | None \<Rightarrow> contains_ci (row ! j) f))
               (rows table)
       \<and> (double_less maxVal minVal \<longrightarrow>
            (\<forall>row \<in> set (rows (applyTableFilters toDouble table headerFilters)).
               toDouble (row ! j) = None))"
proof -
  let ?active = "activeFilters headerFilters"
  let ?keep = "\<lambda>row. length headerFilters \<le> length row
                 \<and> (case toDouble (row ! j) of
                       Some v \<Rightarrow> double_le minVal v \<and> double_le v maxVal
                     | None \<Rightarrow> contains_ci (row ! j) f)"
  from split_at_two_parts(2) [OF assms(7)] have ne: "f \<noteq> []" .
  with assms(1,3) have any: "list_ex (\<lambda>f. f \<noteq> []) ?active"
    by (auto simp add: list_ex_iff in_set_conv_nth intro!: exI [of _ j])
  have sat: "(length headerFilters \<le> length row \<and> satisfies_all toDouble ?active row)
               = ?keep row" for row
  proof -
    have "satisfies_all toDouble ?active row
            = (j < length row \<and> currentFilterMatches toDouble (row ! j) f)"
      using satisfies_single [of j ?active toDouble row] assms(1,2,3) ne by simp
    moreover have "currentFilterMatches toDouble (row ! j) f
            = (case toDouble (row ! j) of
                 Some v \<Rightarrow> double_le minVal v \<and> double_le v maxVal
               | None \<Rightarrow> contains_ci (row ! j) f)"
      by (rule range_filter_matches [OF assms(4-9)])
    ultimately show ?thesis using assms(1) by auto
  qed
  have rows: "rows (applyTableFilters toDouble table headerFilters) = filter ?keep (rows table)"
    by (simp add: applyTableFilters_active [OF any] sat)
  have "toDouble (row ! j) = None"
    if "double_less maxVal minVal" and "row \<in> set (filter ?keep (rows table))" for row
  proof (cases "toDouble (row ! j)")
    case None
    then show ?thesis .
  next
    case (Some v)
    with that(2) have "double_le minVal v" and "double_le v maxVal" by simp_all
    from double_le_inverted [OF this] that(1) show ?thesis by simp
  qed
  with rows show ?thesis by simp
qed

theorem range_filter_rows_witness:
  "activeFilters [Some ''10:20'', Some '' ''] = [''10:20'', '''']
   \<and> split_at CHR '':'' ''10:20'' = [''10'', ''20'']
   \<and> toDouble_decimal ''10'' = Some (Finite 10)
   \<and> toDouble_decimal ''20'' = Some (Finite 20)
   \<and> rows (applyTableFilters toDouble_decimal
           \<lparr>headers = [''x'', ''s''],
            rows = [[''25'', ''a''], [''15'', ''b''], [''abc'', ''c''], [''10:20'', ''d''],
                    [''15''], [''10'', ''e'']]\<rparr>
           [Some ''10:20'', Some '' ''])
     = [[''15'', ''b''], [''10:20'', ''d''], [''10'', ''e'']]"
proof -
  have act: "activeFilters [Some ''10:20'', Some '' ''] = [''10:20'', '''']"
    by (simp add: activeFilters_def trimmed_def isSpace_def)
  have sp: "split_at CHR '':'' ''10:20'' = [''10'', ''20'']"
    by simp
  have others: "\<forall>i < length [Some ''10:20'', Some '' ''].
      i \<noteq> 0 \<longrightarrow> activeFilters [Some ''10:20'', Some '' ''] ! i = []"
    by (simp add: act less_Suc_eq)
  have c: "\<not> contains_ci ''abc'' ''10:20''"
    by (simp add: contains_ci_def startsWith_def)
  have c': "contains_ci ''10:20'' ''10:20''"
    by (simp add: contains_ci_def startsWith_def)
  have abc: "toDouble_decimal ''abc'' = None"
    by (simp add: toDouble_decimal_def trimmed_def isSpace_def startsWith_def digit_value_def)
  from range_filter_rows [of 0 "[Some ''10:20'', Some '' '']" "''10:20''" "''10''" "''20''"
         toDouble_decimal "Finite 10" "Finite 20"
         "\<lparr>headers = [''x'', ''s''],
          rows = [[''25'', ''a''], [''15'', ''b''], [''abc'', ''c''], [''10:20'', ''d''],
                  [''15''], [''10'', ''e'']]\<rparr>", OF _ others]
  have "rows (applyTableFilters toDouble_decimal
           \<lparr>headers = [''x'', ''s''],
            rows = [[''25'', ''a''], [''15'', ''b''], [''abc'', ''c''], [''10:20'', ''d''],
                    [''15''], [''10'', ''e'']]\<rparr>
           [Some ''10:20'', Some '' ''])
     = [[''15'', ''b''], [''10:20'', ''d''], [''10'', ''e'']]"
    by (simp add: act startsWith_def toDouble_decimal_examples abc c c'
          double_le_def double_eq_def)
  with act sp toDouble_decimal_examples(4,6) show ?thesis by simp
qed

text \<open>
  Without the substring case the statement fails on a cell that is not a number and
  contains the filter text:
  the cell \<open>"10:20"\<close> does not parse as a number, and the filter \<open>"10:20"\<close> keeps its row.
\<close>

theorem range_filter_counterexample:
  "toDouble_decimal ''10:20'' = None
   \<and> rows (applyTableFilters toDouble_decimal \<lparr>headers = [''x''], rows = [[''10:20'']]\<rparr>
             [Some ''10:20''])
       = [[''10:20'']]"
proof -
  have act: "activeFilters [Some ''10:20''] = [''10:20'']"
    by (simp add: activeFilters_def trimmed_def isSpace_def)
  have m: "currentFilterMatches toDouble_decimal ''10:20'' ''10:20''"
    by (simp add: currentFilterMatches_def startsWith_def toDouble_decimal_examples
          contains_ci_def)
  show ?thesis
    by (simp add: toDouble_decimal_examples act applyTableFilters_def Let_def
          matchesAllFilters_def m)
qed

section \<open>Properties of the emitter colours\<close>

lemma palette_nonempty: "palette st \<noteq> []"
  by (simp add: palette_def default_colors_def)

lemma getEmitterColor_negative:
  "emitterId < 0 \<Longrightarrow>
   getEmitterColor emitterId st
     = (if emitterId = - 2 then Global Qt_red else Global Qt_darkGray, st)"
  by (simp add: getEmitterColor_def)

lemma getEmitterColor_memoized:
  "0 \<le> emitterId \<Longrightarrow> emitterColorMap st emitterId = Some c \<Longrightarrow>
   getEmitterColor emitterId st = (c, st)"
  by (simp add: getEmitterColor_def)

lemma getEmitterColor_first:
  assumes "0 \<le> emitterId" and "emitterColorMap st emitterId = None"
  shows "getEmitterColor emitterId st
           = (palette st ! (nextColorIndex st mod length (palette st)),
              st\<lparr>vibrantColors := palette st,
                 nextColorIndex := Suc (nextColorIndex st),
                 emitterColorMap := (emitterColorMap st)
                    (emitterId \<mapsto> palette st ! (nextColorIndex st mod length (palette st)))\<rparr>)"
proof (cases "vibrantColors st = []")
  case True
  with assms show ?thesis
    by (simp add: getEmitterColor_def populateDefaultColors_def palette_def Let_def
          default_colors_def)
next
  case False
  with assms show ?thesis
    by (simp add: getEmitterColor_def palette_def Let_def)
qed

text \<open>A call never changes or removes an entry of the map, and it leaves the colour it
  returns for an id from 0 on in the map.\<close>

lemma getEmitterColor_keeps:
  assumes "getEmitterColor i st = (c, st1)" and "emitterColorMap st k = Some d"
  shows "emitterColorMap st1 k = Some d"
proof (cases "0 \<le> i \<and> emitterColorMap st i = None")
  case True
  with assms(2) have "k \<noteq> i" by auto
  with True assms getEmitterColor_first [of i st] show ?thesis by auto
next
  case False
  with assms show ?thesis
    by (cases "i < 0") (auto simp add: getEmitterColor_negative getEmitterColor_memoized)
qed

lemma getEmitterColor_stores:
  assumes "getEmitterColor i st = (c, st1)" and "0 \<le> i"
  shows "emitterColorMap st1 i = Some c"
proof (cases "emitterColorMap st i")
  case None
  with assms getEmitterColor_first [of i st] show ?thesis by auto
next
  case (Some d)
  with assms show ?thesis by (simp add: getEmitterColor_memoized)
qed

lemma length_lookups: "length (fst (lookups ids st)) = length ids"
  by (induction ids arbitrary: st) (simp_all add: split_beta Let_def)

lemma lookups_negative:
  "k < length ids \<Longrightarrow> ids ! k < 0 \<Longrightarrow>
   fst (lookups ids st) ! k = (if ids ! k = - 2 then Global Qt_red else Global Qt_darkGray)"
proof (induction ids arbitrary: st k)
  case Nil
  then show ?case by simp
next
  case (Cons i ids)
  show ?case
  proof (cases k)
    case 0
    with Cons.prems show ?thesis
      by (simp add: split_beta Let_def getEmitterColor_negative)
  next
    case (Suc n)
    with Cons.prems Cons.IH [of n "snd (getEmitterColor i st)"] show ?thesis
      by (simp add: split_beta Let_def)
  qed
qed

lemma lookups_memoized:
  "emitterColorMap st i = Some c \<Longrightarrow> 0 \<le> i \<Longrightarrow> k < length ids \<Longrightarrow> ids ! k = i \<Longrightarrow>
   fst (lookups ids st) ! k = c"
proof (induction ids arbitrary: st k)
  case Nil
  then show ?case by simp
next
  case (Cons x ids)
  show ?case
  proof (cases k)
    case 0
    with Cons.prems show ?thesis
      by (simp add: split_beta Let_def getEmitterColor_memoized)
  next
    case (Suc n)
    obtain d st1 where g: "getEmitterColor x st = (d, st1)" by (cases "getEmitterColor x st")
    from getEmitterColor_keeps [OF g Cons.prems(1)]
    have "emitterColorMap st1 i = Some c" .
    from Cons.IH [OF this Cons.prems(2), of n] Suc Cons.prems(3,4) g show ?thesis
      by (simp add: split_beta Let_def)
  qed
qed

lemma lookups_same_colour:
  "m < n \<Longrightarrow> n < length ids \<Longrightarrow> ids ! m = ids ! n \<Longrightarrow>
   fst (lookups ids st) ! m = fst (lookups ids st) ! n"
proof (induction ids arbitrary: st m n)
  case Nil
  then show ?case by simp
next
  case (Cons x ids)
  obtain d st1 where g: "getEmitterColor x st = (d, st1)" by (cases "getEmitterColor x st")
  from Cons.prems(1) obtain n' where n: "n = Suc n'" by (cases n) auto
  show ?case
  proof (cases m)
    case 0
    show ?thesis
    proof (cases "x < 0")
      case True
      with 0 n Cons.prems g lookups_negative [of n' ids st1] show ?thesis
        by (simp add: split_beta Let_def getEmitterColor_negative)
    next
      case False
      then have "0 \<le> x" by simp
      from getEmitterColor_stores [OF g this] have "emitterColorMap st1 x = Some d" .
      from lookups_memoized [OF this \<open>0 \<le> x\<close>, of n' ids] 0 n Cons.prems g show ?thesis
        by (simp add: split_beta Let_def)
    qed
  next
    case (Suc m')
    with n Cons.prems Cons.IH [of m' n' st1] g show ?thesis
      by (simp add: split_beta Let_def)
  qed
qed

text \<open>The palette slots a sequence of calls consumes: one for each distinct id from 0 on
  that the map did not hold before.\<close>

lemma lookups_slots:
  "nextColorIndex (snd (lookups ids st))
     = nextColorIndex st + card {i \<in> set ids. 0 \<le> i \<and> emitterColorMap st i = None}"
proof (induction ids arbitrary: st)
  case Nil
  then show ?case by simp
next
  case (Cons x ids)
  let ?new = "\<lambda>s. {i \<in> set ids. 0 \<le> i \<and> emitterColorMap s i = None}"
  show ?case
  proof (cases "0 \<le> x \<and> emitterColorMap st x = None")
    case True
    let ?st1 = "snd (getEmitterColor x st)"
    from True getEmitterColor_first [of x st]
    have n1: "nextColorIndex ?st1 = Suc (nextColorIndex st)"
      and m1: "emitterColorMap ?st1 = (emitterColorMap st)
                 (x \<mapsto> palette st ! (nextColorIndex st mod length (palette st)))"
      by simp_all
    have s1: "?new ?st1 = ?new st - {x}" by (auto simp add: m1)
    from True have s: "{i \<in> set (x # ids). 0 \<le> i \<and> emitterColorMap st i = None}
        = insert x (?new st)" by auto
    have "card (insert x (?new st)) = Suc (card (?new st - {x}))"
      by (rule card.insert_remove) simp
    with Cons.IH [of ?st1] n1 s1 s show ?thesis
      by (simp add: split_beta Let_def)
  next
    case False
    then have same: "snd (getEmitterColor x st) = st"
      by (cases "x < 0"; cases "emitterColorMap st x")
         (auto simp add: getEmitterColor_negative getEmitterColor_memoized)
    from False have "{i \<in> set (x # ids). 0 \<le> i \<and> emitterColorMap st i = None} = ?new st"
      by auto
    with Cons.IH [of st] same show ?thesis
      by (simp add: split_beta Let_def)
  qed
qed

lemma constructed_fields:
  "emitterColorMap constructed = Map.empty"
  "vibrantColors constructed = default_colors"
  "nextColorIndex constructed = 0"
  "palette constructed = default_colors"
  by (simp_all add: constructed_def populateDefaultColors_def palette_def default_colors_def)

text \<open>
  C4. A first request for an id from 0 on returns the palette colour at index
  \<open>nextColorIndex mod\<close> the palette size, stores it for the id and advances
  \<open>nextColorIndex\<close> by one. A request for an id the map holds returns the stored colour and
  changes nothing. A request for an id below 0 returns red for \<open>-2\<close> and dark gray
  otherwise, and changes nothing. In every sequence of requests a later request for an id
  returns the colour the earlier one returned, and the sequence consumes one palette slot
  for each distinct id from 0 on that the map did not hold before, and no other. After
  construction the requests \<open>3, 7, 3\<close> return the palette colours 0, 1 and 0 again, and leave
  \<open>nextColorIndex = 2\<close>.
\<close>

theorem emitter_colours_memoized:
  "(0 \<le> emitterId \<and> emitterColorMap st emitterId = None \<longrightarrow>
      getEmitterColor emitterId st
        = (palette st ! (nextColorIndex st mod length (palette st)),
           st\<lparr>vibrantColors := palette st,
              nextColorIndex := Suc (nextColorIndex st),
              emitterColorMap := (emitterColorMap st)
                 (emitterId \<mapsto> palette st ! (nextColorIndex st mod length (palette st)))\<rparr>))
   \<and> (0 \<le> emitterId \<and> emitterColorMap st emitterId = Some c \<longrightarrow>
        getEmitterColor emitterId st = (c, st))
   \<and> (emitterId < 0 \<longrightarrow>
        getEmitterColor emitterId st
          = (if emitterId = - 2 then Global Qt_red else Global Qt_darkGray, st))
   \<and> (m < n \<and> n < length ids \<and> ids ! m = ids ! n \<longrightarrow>
        fst (lookups ids st) ! m = fst (lookups ids st) ! n)
   \<and> nextColorIndex (snd (lookups ids st))
        = nextColorIndex st + card {i \<in> set ids. 0 \<le> i \<and> emitterColorMap st i = None}
   \<and> fst (lookups [3, 7, 3] constructed)
        = [vibrantColors constructed ! 0, vibrantColors constructed ! 1,
           vibrantColors constructed ! 0]
   \<and> nextColorIndex (snd (lookups [3, 7, 3] constructed)) = 2"
proof -
  have ex: "lookups [3, 7, 3] constructed
      = ([default_colors ! 0, default_colors ! 1, default_colors ! 0],
         constructed\<lparr>nextColorIndex := 2,
            emitterColorMap := [3 \<mapsto> default_colors ! 0, 7 \<mapsto> default_colors ! 1]\<rparr>)"
    by (simp add: getEmitterColor_def constructed_def populateDefaultColors_def
          default_colors_def Let_def)
  have first: "0 \<le> emitterId \<and> emitterColorMap st emitterId = None \<longrightarrow>
      getEmitterColor emitterId st
        = (palette st ! (nextColorIndex st mod length (palette st)),
           st\<lparr>vibrantColors := palette st,
              nextColorIndex := Suc (nextColorIndex st),
              emitterColorMap := (emitterColorMap st)
                 (emitterId \<mapsto> palette st ! (nextColorIndex st mod length (palette st)))\<rparr>)"
    using getEmitterColor_first [of emitterId st] by blast
  have memo: "0 \<le> emitterId \<and> emitterColorMap st emitterId = Some c \<longrightarrow>
        getEmitterColor emitterId st = (c, st)"
    using getEmitterColor_memoized [of emitterId st c] by blast
  have neg: "emitterId < 0 \<longrightarrow>
        getEmitterColor emitterId st
          = (if emitterId = - 2 then Global Qt_red else Global Qt_darkGray, st)"
    using getEmitterColor_negative [of emitterId st] by blast
  have same: "m < n \<and> n < length ids \<and> ids ! m = ids ! n \<longrightarrow>
        fst (lookups ids st) ! m = fst (lookups ids st) ! n"
    using lookups_same_colour [of m n ids st] by blast
  have slots: "nextColorIndex (snd (lookups ids st))
        = nextColorIndex st + card {i \<in> set ids. 0 \<le> i \<and> emitterColorMap st i = None}"
    by (rule lookups_slots)
  have ex1: "fst (lookups [3, 7, 3] constructed)
        = [vibrantColors constructed ! 0, vibrantColors constructed ! 1,
           vibrantColors constructed ! 0]"
    unfolding ex by (simp add: constructed_fields)
  have ex2: "nextColorIndex (snd (lookups [3, 7, 3] constructed)) = 2"
    unfolding ex by simp
  show ?thesis
    by (intro conjI first memo neg same slots ex1 ex2)
qed

theorem emitter_colours_memoized_witness:
  "fst (getEmitterColor 3 constructed) = Darker (Global Qt_green) 120
   \<and> nextColorIndex (snd (getEmitterColor 3 constructed)) = 1
   \<and> fst (lookups [3, 7, 3] constructed)
       = [Darker (Global Qt_green) 120, Global Qt_blue, Darker (Global Qt_green) 120]
   \<and> nextColorIndex (snd (lookups [3, 7, 3] constructed)) = 2"
proof -
  note t = emitter_colours_memoized [of 3 constructed undefined 0 2 "[3, 7, 3]"]
  note rest = t [THEN conjunct2, THEN conjunct2, THEN conjunct2, THEN conjunct2, THEN conjunct2]
  from t [THEN conjunct1] have "getEmitterColor 3 constructed
     = (default_colors ! 0,
        constructed\<lparr>vibrantColors := default_colors, nextColorIndex := Suc 0,
           emitterColorMap := [3 \<mapsto> default_colors ! 0]\<rparr>)"
    by (simp add: constructed_fields)
  then have a: "fst (getEmitterColor 3 constructed) = Darker (Global Qt_green) 120"
    and b: "nextColorIndex (snd (getEmitterColor 3 constructed)) = 1"
    by (simp_all add: default_colors_def)
  from rest [THEN conjunct1] have c: "fst (lookups [3, 7, 3] constructed)
       = [Darker (Global Qt_green) 120, Global Qt_blue, Darker (Global Qt_green) 120]"
    by (simp add: constructed_fields default_colors_def del: lookups.simps)
  from rest [THEN conjunct2] have d: "nextColorIndex (snd (lookups [3, 7, 3] constructed)) = 2" .
  from a b c d show ?thesis by blast
qed

section \<open>Properties of the export\<close>

text \<open>The lines of the data rows: every field goes through \<open>row_field\<close>, which wraps a
  field holding a comma, a double quote or a newline in double quotes, doubling the double
  quotes inside, and leaves every other field as it is.\<close>

lemma export_rows_quoted:
  assumes "rows table \<noteq> []" and "path \<noteq> []"
  shows "exportFilteredData table path True
           = Written (join '','' (headers table) @ [newline]
                      @ concat (map (\<lambda>row. join '','' (map row_field row) @ [newline])
                                  (rows table)))"
  using assms by (simp add: exportFilteredData_def)

lemma row_field_plain:
  "CHR '','' \<notin> set field \<Longrightarrow> dquote \<notin> set field \<Longrightarrow> newline \<notin> set field \<Longrightarrow>
   row_field field = field"
  by (simp add: row_field_def)

lemma row_field_quoted:
  "CHR '','' \<in> set field \<or> dquote \<in> set field \<or> newline \<in> set field \<Longrightarrow>
   row_field field = [dquote] @ replace_quotes field @ [dquote]"
  by (simp add: row_field_def)

text \<open>
  C6. The header line is written as \<open>qHeaders.join(',')\<close>, with no quoting. A file whose
  two lines are \<open>a"b\<close> and \<open>c"d\<close> loads as the header \<open>a"b\<close> and one row with the cell
  \<open>c"d\<close>; exported, the cell is written as \<open>"c""d"\<close> and the header as \<open>a"b\<close>, unquoted.
\<close>

theorem export_header_not_quoted:
  "run (\<lambda>k. False) (example_file [''a'' @ [dquote] @ ''b'', ''c'' @ [dquote] @ ''d''])
     = [progressUpdated 0 ''Header loaded.'',
        progressUpdated 100 ''Finished loading 1 rows.'',
        loadingFinished \<lparr>headers = [''a'' @ [dquote] @ ''b''],
                         rows = [[''c'' @ [dquote] @ ''d'']]\<rparr>]
   \<and> exportFilteredData
         \<lparr>headers = [''a'' @ [dquote] @ ''b''], rows = [[''c'' @ [dquote] @ ''d'']]\<rparr>
         ''out.csv'' True
       = Written (''a'' @ [dquote] @ ''b'' @ [newline]
                  @ [dquote] @ ''c'' @ [dquote, dquote] @ ''d'' @ [dquote] @ [newline])"
proof -
  have n: "arg_number (Suc 0) = ''1''"
    by (subst arg_number.simps) (simp add: digit_char_def)
  have "run (\<lambda>k. False) (example_file [''a'' @ [dquote] @ ''b'', ''c'' @ [dquote] @ ''d''])
     = [progressUpdated 0 ''Header loaded.'',
        progressUpdated 100 ''Finished loading 1 rows.'',
        loadingFinished \<lparr>headers = [''a'' @ [dquote] @ ''b''],
                         rows = [[''c'' @ [dquote] @ ''d'']]\<rparr>]"
    by (simp add: run_def example_file_def after_header_def Let_def read_row_def finish_def
          MAX_ROWS_TO_LOAD_def split_fields_def trimmed_def isSpace_def dquote_def n)
  moreover have "exportFilteredData
         \<lparr>headers = [''a'' @ [dquote] @ ''b''], rows = [[''c'' @ [dquote] @ ''d'']]\<rparr>
         ''out.csv'' True
       = Written (''a'' @ [dquote] @ ''b'' @ [newline]
                  @ [dquote] @ ''c'' @ [dquote, dquote] @ ''d'' @ [dquote] @ [newline])"
    by (simp add: exportFilteredData_def row_field_def replace_quotes_def dquote_def
          newline_def)
  ultimately show ?thesis by (rule conjI)
qed

section \<open>Properties of the scatter plot\<close>

lemma half_int_half: "\<bar>k\<bar> < 2 ^ 53 \<Longrightarrow> half_int (real_of_int k / 2)"
  unfolding half_int_def by blast

lemma half_int_int: "\<bar>k\<bar> < 2 ^ 52 \<Longrightarrow> half_int (real_of_int k)"
proof -
  assume "\<bar>k\<bar> < 2 ^ 52"
  then have "\<bar>2 * k\<bar> < 2 ^ 53" by simp
  from half_int_half [OF this] show ?thesis by simp
qed

lemma exact_fadd:
  "exact_on_halves fp \<Longrightarrow> half_int a \<Longrightarrow> half_int b \<Longrightarrow> half_int (a + b) \<Longrightarrow>
   fadd fp (Finite a) (Finite b) = Finite (a + b)"
  unfolding exact_on_halves_def by blast

lemma exact_fsub:
  "exact_on_halves fp \<Longrightarrow> half_int a \<Longrightarrow> half_int b \<Longrightarrow> half_int (a - b) \<Longrightarrow>
   fsub fp (Finite a) (Finite b) = Finite (a - b)"
  unfolding exact_on_halves_def by blast

lemma exact_fmul:
  "exact_on_halves fp \<Longrightarrow> half_int a \<Longrightarrow> half_int b \<Longrightarrow> half_int (a * b) \<Longrightarrow>
   fmul fp (Finite a) (Finite b) = Finite (a * b)"
  unfolding exact_on_halves_def by blast

lemma exact_fdiv:
  "exact_on_halves fp \<Longrightarrow> half_int a \<Longrightarrow> half_int b \<Longrightarrow> b \<noteq> 0 \<Longrightarrow> half_int (a / b) \<Longrightarrow>
   fdiv fp (Finite a) (Finite b) = Finite (a / b)"
  unfolding exact_on_halves_def by blast

lemma exact_on_halves_unrounded: "exact_on_halves unrounded_fpu"
  by (simp add: exact_on_halves_def unrounded_fpu_def)

text \<open>The operations around a shared integer coordinate \<open>n\<close>, a plot area of \<open>d\<close>
  pixels and the pixel \<open>c\<close> the source measures from: each has two operands and a result
  of the form \<open>k / 2\<close>, so it is exact.\<close>

lemma expand_down:
  assumes "exact_on_halves fp" and "\<bar>n\<bar> < 2 ^ 31"
  shows "fsub fp (Finite (real_of_int n)) (Finite (1 / 2)) = Finite (real_of_int n - 1 / 2)"
proof (rule exact_fsub [OF assms(1)])
  from assms(2) show "half_int (real_of_int n)" by (intro half_int_int) simp
  have "half_int (real_of_int 1 / 2)" by (rule half_int_half) simp
  then show "half_int (1 / 2)" by simp
  from assms(2) have "half_int (real_of_int (2 * n - 1) / 2)"
    by (intro half_int_half) simp
  then show "half_int (real_of_int n - 1 / 2)" by (simp add: field_simps)
qed

lemma expand_up:
  assumes "exact_on_halves fp" and "\<bar>n\<bar> < 2 ^ 31"
  shows "fadd fp (Finite (real_of_int n)) (Finite (1 / 2)) = Finite (real_of_int n + 1 / 2)"
proof (rule exact_fadd [OF assms(1)])
  from assms(2) show "half_int (real_of_int n)" by (intro half_int_int) simp
  have "half_int (real_of_int 1 / 2)" by (rule half_int_half) simp
  then show "half_int (1 / 2)" by simp
  from assms(2) have "half_int (real_of_int (2 * n + 1) / 2)"
    by (intro half_int_half) simp
  then show "half_int (real_of_int n + 1 / 2)" by (simp add: field_simps)
qed

lemma expanded_extent:
  assumes "exact_on_halves fp" and "\<bar>n\<bar> < 2 ^ 31"
  shows "fsub fp (Finite (real_of_int n + 1 / 2)) (Finite (real_of_int n - 1 / 2)) = Finite 1"
proof -
  from assms(2) have "half_int (real_of_int (2 * n + 1) / 2)"
    by (intro half_int_half) simp
  then have a: "half_int (real_of_int n + 1 / 2)" by (simp add: field_simps)
  from assms(2) have "half_int (real_of_int (2 * n - 1) / 2)"
    by (intro half_int_half) simp
  then have b: "half_int (real_of_int n - 1 / 2)" by (simp add: field_simps)
  have "half_int (real_of_int 1)" by (rule half_int_int) simp
  then have c: "half_int ((real_of_int n + 1 / 2) - (real_of_int n - 1 / 2))" by simp
  from exact_fsub [OF assms(1) a b c] show ?thesis by simp
qed

lemma offset_in_extent:
  assumes "exact_on_halves fp" and "\<bar>n\<bar> < 2 ^ 31"
  shows "fsub fp (Finite (real_of_int n)) (Finite (real_of_int n - 1 / 2)) = Finite (1 / 2)"
proof -
  from assms(2) have a: "half_int (real_of_int n)" by (intro half_int_int) simp
  from assms(2) have "half_int (real_of_int (2 * n - 1) / 2)"
    by (intro half_int_half) simp
  then have b: "half_int (real_of_int n - 1 / 2)" by (simp add: field_simps)
  have "half_int (real_of_int 1 / 2)" by (rule half_int_half) simp
  then have c: "half_int (real_of_int n - (real_of_int n - 1 / 2))" by simp
  from exact_fsub [OF assms(1) a b c] show ?thesis by simp
qed

lemma scale_of_unit_extent:
  assumes "exact_on_halves fp" and "0 < d" and "d < 2 ^ 31"
  shows "fdiv fp (double_of_int d) (Finite 1) = Finite (real_of_int d)"
proof -
  from assms(2,3) have a: "half_int (real_of_int d)" by (intro half_int_int) simp
  have "half_int (real_of_int 1)" by (rule half_int_int) simp
  then have b: "half_int 1" by simp
  from a have c: "half_int (real_of_int d / 1)" by simp
  from exact_fdiv [OF assms(1) a b _ c] show ?thesis by (simp add: double_of_int_def)
qed

lemma half_of_area:
  assumes "exact_on_halves fp" and "0 < d" and "d < 2 ^ 31"
  shows "fmul fp (Finite (1 / 2)) (Finite (real_of_int d)) = Finite (real_of_int d / 2)"
proof -
  have "half_int (real_of_int 1 / 2)" by (rule half_int_half) simp
  then have a: "half_int (1 / 2)" by simp
  from assms(2,3) have b: "half_int (real_of_int d)" by (intro half_int_int) simp
  from assms(2,3) have "half_int (real_of_int d / 2)" by (intro half_int_half) simp
  then have c: "half_int (1 / 2 * real_of_int d)" by simp
  from exact_fmul [OF assms(1) a b c] show ?thesis by simp
qed

lemma pixel_plus:
  assumes "exact_on_halves fp" and "0 < d" and "d < 2 ^ 31" and "0 \<le> c" and "c < 2 ^ 32"
  shows "fadd fp (double_of_int c) (Finite (real_of_int d / 2))
           = Finite (real_of_int c + real_of_int d / 2)"
proof -
  from assms(4,5) have a: "half_int (real_of_int c)" by (intro half_int_int) simp
  from assms(2,3) have b: "half_int (real_of_int d / 2)" by (intro half_int_half) simp
  from assms(2-5) have "half_int (real_of_int (2 * c + d) / 2)"
    by (intro half_int_half) simp
  then have c: "half_int (real_of_int c + real_of_int d / 2)" by (simp add: field_simps)
  from exact_fadd [OF assms(1) a b c] show ?thesis by (simp add: double_of_int_def)
qed

lemma pixel_minus:
  assumes "exact_on_halves fp" and "0 < d" and "d < 2 ^ 31" and "0 \<le> c" and "c < 2 ^ 32"
  shows "fsub fp (double_of_int c) (Finite (real_of_int d / 2))
           = Finite (real_of_int c - real_of_int d / 2)"
proof -
  from assms(4,5) have a: "half_int (real_of_int c)" by (intro half_int_int) simp
  from assms(2,3) have b: "half_int (real_of_int d / 2)" by (intro half_int_half) simp
  from assms(2-5) have "half_int (real_of_int (2 * c - d) / 2)"
    by (intro half_int_half) simp
  then have c: "half_int (real_of_int c - real_of_int d / 2)" by (simp add: field_simps)
  from exact_fsub [OF assms(1) a b c] show ?thesis by (simp add: double_of_int_def)
qed

text \<open>The loop over the points leaves an extent alone that all points share.\<close>

lemma fold_include_point_x:
  "\<forall>p \<in> set ps. fst p = Finite v \<Longrightarrow> minX e = Finite v \<Longrightarrow> maxX e = Finite v \<Longrightarrow>
   minX (fold include_point ps e) = Finite v \<and> maxX (fold include_point ps e) = Finite v"
  by (induction ps arbitrary: e) (simp_all add: include_point_def)

lemma fold_include_point_y:
  "\<forall>p \<in> set ps. snd p = Finite v \<Longrightarrow> minY e = Finite v \<Longrightarrow> maxY e = Finite v \<Longrightarrow>
   minY (fold include_point ps e) = Finite v \<and> maxY (fold include_point ps e) = Finite v"
  by (induction ps arbitrary: e) (simp_all add: include_point_def)

lemma bounding_rect_single_x:
  assumes "exact_on_halves fp" and "plotData \<noteq> []" and "\<bar>n\<bar> < 2 ^ 31"
    and "\<forall>p \<in> set plotData. fst p = Finite (real_of_int n)"
  shows "rectf_left (calculateDataBoundingRect fp plotData) = Finite (real_of_int n - 1 / 2)
       \<and> rectf_width (calculateDataBoundingRect fp plotData) = Finite 1"
proof -
  from assms(2) obtain first others where c: "plotData = first # others"
    by (cases plotData) auto
  let ?e0 = "\<lparr>minX = fst first, maxX = fst first, minY = snd first, maxY = snd first\<rparr>"
  from assms(4) c have "fst first = Finite (real_of_int n)" by simp
  with fold_include_point_x [OF assms(4), of ?e0]
  have "minX (fold include_point plotData ?e0) = Finite (real_of_int n)"
    and "maxX (fold include_point plotData ?e0) = Finite (real_of_int n)" by simp_all
  with c show ?thesis
    by (simp add: calculateDataBoundingRect_def Let_def double_eq_def
          expand_down [OF assms(1,3)] expand_up [OF assms(1,3)]
          expanded_extent [OF assms(1,3)])
qed

lemma bounding_rect_single_y:
  assumes "exact_on_halves fp" and "plotData \<noteq> []" and "\<bar>n\<bar> < 2 ^ 31"
    and "\<forall>p \<in> set plotData. snd p = Finite (real_of_int n)"
  shows "rectf_top (calculateDataBoundingRect fp plotData) = Finite (real_of_int n - 1 / 2)
       \<and> rectf_height (calculateDataBoundingRect fp plotData) = Finite 1"
proof -
  from assms(2) obtain first others where c: "plotData = first # others"
    by (cases plotData) auto
  let ?e0 = "\<lparr>minX = fst first, maxX = fst first, minY = snd first, maxY = snd first\<rparr>"
  from assms(4) c have "snd first = Finite (real_of_int n)" by simp
  with fold_include_point_y [OF assms(4), of ?e0]
  have "minY (fold include_point plotData ?e0) = Finite (real_of_int n)"
    and "maxY (fold include_point plotData ?e0) = Finite (real_of_int n)" by simp_all
  with c show ?thesis
    by (simp add: calculateDataBoundingRect_def Let_def double_eq_def
          expand_down [OF assms(1,3)] expand_up [OF assms(1,3)]
          expanded_extent [OF assms(1,3)])
qed

text \<open>Every square drawn comes from a point, by the two formulas of \<open>paintEvent\<close>.\<close>

lemma painted_point:
  assumes "q \<in> set (painted fp w h plotData)"
  shows "\<exists>p \<in> set plotData.
           fst q = fadd fp (double_of_int 60)
                     (fmul fp (fsub fp (fst p) (rectf_left (calculateDataBoundingRect fp plotData)))
                        (fdiv fp (double_of_int (w - 80))
                           (rectf_width (calculateDataBoundingRect fp plotData))))
         \<and> snd q = fsub fp (double_of_int (h - 51))
                     (fmul fp (fsub fp (snd p) (rectf_top (calculateDataBoundingRect fp plotData)))
                        (fdiv fp (double_of_int (h - 80))
                           (rectf_height (calculateDataBoundingRect fp plotData))))"
  using assms
  by (force simp add: painted_def paintEvent_def plotRect_def rect_bottom_def Let_def
        algebra_simps split: if_splits)

text \<open>
  C7. For every arithmetic that is exact where binary64 is, every widget with a plot area
  (wider and higher than 80, the sum of the margins) and every non-empty set of points:
  when all points share one y value, an integer of 32 bits, the bounding rectangle starts
  half a unit below it and has height 1, and every point drawn is drawn at
  \<open>top + height / 2 - 1\<close>: one unit above the vertical centre of the plot area, since
  \<open>paintEvent\<close> measures from \<open>plotRect.bottom()\<close>, which is \<open>top + height - 1\<close>. When all
  points share one x value, an integer of 32 bits, the bounding rectangle starts half a
  unit to the left of it and has width 1, and every point drawn is drawn at the horizontal
  centre, \<open>left + width / 2\<close>. Every point is drawn when neither guard of \<open>paintEvent\<close>
  on the bounding rectangle fires.
\<close>

theorem single_value_axis_position:
  assumes "exact_on_halves fp" and "plotData \<noteq> []" and "\<bar>n\<bar> < 2 ^ 31"
    and "80 < w" and "w < 2 ^ 31" and "80 < h" and "h < 2 ^ 31"
  shows "((\<forall>p \<in> set plotData. snd p = Finite (real_of_int n)) \<longrightarrow>
            rectf_top (calculateDataBoundingRect fp plotData) = Finite (real_of_int n - 1 / 2)
          \<and> rectf_height (calculateDataBoundingRect fp plotData) = Finite 1
          \<and> (\<forall>q \<in> set (painted fp w h plotData).
                snd q = Finite (real_of_int (rect_top (plotRect w h))
                                  + real_of_int (rect_height (plotRect w h)) / 2 - 1)))
       \<and> ((\<forall>p \<in> set plotData. fst p = Finite (real_of_int n)) \<longrightarrow>
            rectf_left (calculateDataBoundingRect fp plotData) = Finite (real_of_int n - 1 / 2)
          \<and> rectf_width (calculateDataBoundingRect fp plotData) = Finite 1
          \<and> (\<forall>q \<in> set (painted fp w h plotData).
                fst q = Finite (real_of_int (rect_left (plotRect w h))
                                  + real_of_int (rect_width (plotRect w h)) / 2)))
       \<and> (\<not> double_le (rectf_width (calculateDataBoundingRect fp plotData)) (Finite 0)
            \<and> \<not> double_le (rectf_height (calculateDataBoundingRect fp plotData)) (Finite 0)
          \<longrightarrow> length (painted fp w h plotData) = length plotData)"
proof (intro conjI impI ballI)
  assume a: "\<forall>p \<in> set plotData. snd p = Finite (real_of_int n)"
  from bounding_rect_single_y [OF assms(1-3) a]
  show t: "rectf_top (calculateDataBoundingRect fp plotData) = Finite (real_of_int n - 1 / 2)"
    and g: "rectf_height (calculateDataBoundingRect fp plotData) = Finite 1" by simp_all
  fix q assume "q \<in> set (painted fp w h plotData)"
  from painted_point [OF this] a
  have "snd q = fsub fp (double_of_int (h - 51))
                  (fmul fp (fsub fp (Finite (real_of_int n)) (Finite (real_of_int n - 1 / 2)))
                     (fdiv fp (double_of_int (h - 80)) (Finite 1)))"
    by (auto simp add: t g)
  also have "\<dots> = Finite (real_of_int (h - 51) - real_of_int (h - 80) / 2)"
  proof -
    from assms(6,7) have d: "0 < h - 80" "h - 80 < 2 ^ 31" "0 \<le> h - 51" "h - 51 < 2 ^ 32"
      by simp_all
    show ?thesis
      by (simp only: offset_in_extent [OF assms(1,3)] scale_of_unit_extent [OF assms(1) d(1,2)]
            half_of_area [OF assms(1) d(1,2)] pixel_minus [OF assms(1) d])
  qed
  also have "real_of_int (h - 51) - real_of_int (h - 80) / 2
               = real_of_int (rect_top (plotRect w h))
                   + real_of_int (rect_height (plotRect w h)) / 2 - 1"
    by (simp add: plotRect_def field_simps)
  finally show "snd q = Finite (real_of_int (rect_top (plotRect w h))
                                  + real_of_int (rect_height (plotRect w h)) / 2 - 1)" .
next
  assume a: "\<forall>p \<in> set plotData. fst p = Finite (real_of_int n)"
  from bounding_rect_single_x [OF assms(1-3) a]
  show t: "rectf_left (calculateDataBoundingRect fp plotData) = Finite (real_of_int n - 1 / 2)"
    and g: "rectf_width (calculateDataBoundingRect fp plotData) = Finite 1" by simp_all
  fix q assume "q \<in> set (painted fp w h plotData)"
  from painted_point [OF this] a
  have "fst q = fadd fp (double_of_int 60)
                  (fmul fp (fsub fp (Finite (real_of_int n)) (Finite (real_of_int n - 1 / 2)))
                     (fdiv fp (double_of_int (w - 80)) (Finite 1)))"
    by (auto simp add: t g)
  also have "\<dots> = Finite (real_of_int 60 + real_of_int (w - 80) / 2)"
  proof -
    from assms(4,5) have d: "0 < w - 80" "w - 80 < 2 ^ 31" by simp_all
    have c: "(0::int) \<le> 60" "(60::int) < 2 ^ 32" by simp_all
    show ?thesis
      by (simp only: offset_in_extent [OF assms(1,3)] scale_of_unit_extent [OF assms(1) d]
            half_of_area [OF assms(1) d] pixel_plus [OF assms(1) d c])
  qed
  also have "real_of_int 60 + real_of_int (w - 80) / 2
               = real_of_int (rect_left (plotRect w h))
                   + real_of_int (rect_width (plotRect w h)) / 2"
    by (simp add: plotRect_def)
  finally show "fst q = Finite (real_of_int (rect_left (plotRect w h))
                                  + real_of_int (rect_width (plotRect w h)) / 2)" .
next
  assume "\<not> double_le (rectf_width (calculateDataBoundingRect fp plotData)) (Finite 0)
            \<and> \<not> double_le (rectf_height (calculateDataBoundingRect fp plotData)) (Finite 0)"
  with assms(2,4,6) show "length (painted fp w h plotData) = length plotData"
    by (simp add: painted_def paintEvent_def plotRect_def isValid_def rect_right_def
          rect_bottom_def Let_def)
qed

text \<open>
  The points \<open>(0, 0)\<close> and \<open>(4, 0)\<close> in a widget of 200 by 150: the plot area is
  \<open>(60, 30, 120, 70)\<close>, its vertical centre is at 65, and both points are drawn at 64.
  Every operation on the way is exact in binary64: \<open>0 - 0.5\<close>, \<open>0 + 0.5\<close>, \<open>0.5 + 0.5\<close>,
  \<open>4 - 0\<close>, \<open>120 / 4\<close>, \<open>70 / 1\<close>, \<open>0 * 30\<close>, \<open>4 * 30\<close>, \<open>60 + 0\<close>, \<open>60 + 120\<close>, \<open>0 + 0.5\<close>,
  \<open>0.5 * 70\<close> and \<open>99 - 35\<close>.
\<close>

theorem single_value_axis_position_witness:
  "exact_on_halves unrounded_fpu
   \<and> painted unrounded_fpu 200 150 [(Finite 0, Finite 0), (Finite 4, Finite 0)]
       = [(Finite 60, Finite 64), (Finite 180, Finite 64)]
   \<and> real_of_int (rect_top (plotRect 200 150))
       + real_of_int (rect_height (plotRect 200 150)) / 2 = 65"
proof -
  let ?points = "[(Finite 0, Finite 0), (Finite 4, Finite 0)]"
  have p: "painted unrounded_fpu 200 150 ?points
             = [(Finite 60, Finite 64), (Finite 180, Finite 64)]"
    by (simp add: painted_def paintEvent_def calculateDataBoundingRect_def include_point_def
          plotRect_def isValid_def rect_right_def rect_bottom_def unrounded_fpu_def
          double_of_int_def double_eq_def double_le_def Let_def)
  from single_value_axis_position [OF exact_on_halves_unrounded, of ?points 0 200 150]
  have "\<forall>q \<in> set (painted unrounded_fpu 200 150 ?points). snd q = Finite 64"
    by (simp add: plotRect_def)
  with p exact_on_halves_unrounded show ?thesis by (simp add: plotRect_def)
qed

end
